theory Spec2Isabelle
  imports Complex_Main
begin

section \<open>Outcomes of a call\<close>

text \<open>
  The mapper is C++ code on top of VTK and Eigen. A call either returns, or ends the
  process with \<^verbatim>\<open>exit(1)\<close> after printing a diagnostic on \<^verbatim>\<open>cerr\<close>, or reads or
  writes outside an array, which C++ leaves undefined. The embedding makes all three
  visible: a function returns \<open>Inr\<close> of its result, \<open>Inl (Exit msg)\<close> with the diagnostic
  (without the \<^verbatim>\<open>NameOfType()\<close> prefix), or \<open>Inl UndefinedBehaviour\<close>.
\<close>

datatype failure = Exit string | UndefinedBehaviour

definition then_do :: "failure + 'a \<Rightarrow> ('a \<Rightarrow> failure + 'b) \<Rightarrow> failure + 'b" where
  "then_do m f = (case m of Inl e \<Rightarrow> Inl e | Inr x \<Rightarrow> f x)"

text \<open>A \<^verbatim>\<open>for\<close> loop over the elements of a list, threading the state; it stops at the
  first failure.\<close>

primrec for_each :: "'b list \<Rightarrow> ('a \<Rightarrow> 'b \<Rightarrow> failure + 'a) \<Rightarrow> 'a \<Rightarrow> failure + 'a" where
  "for_each [] body s = Inr s"
| "for_each (x # xs) body s = then_do (body s x) (for_each xs body)"

section \<open>The objects the mapper works on\<close>

text \<open>
  VTK objects are reference counted and shared through smart pointers; an object is
  therefore an entry of a store, and a pointer is its position there (\<open>None\<close> is the
  null pointer). A new object is appended to the store, so its address is fresh.
\<close>

type_synonym addr = nat

text \<open>A \<^verbatim>\<open>vtkDataArray\<close>: a name, the number of components, and one tuple per row.
  The scalar type \<open>'s\<close> stands for \<^verbatim>\<open>double\<close>; the definitions use nothing of it but
  the operations the code applies (\<open>0\<close>, \<open>1\<close>, \<open>+\<close>, \<open>*\<close>, unary \<open>-\<close> and comparison
  with \<open>0\<close>).\<close>

record 's data_array =
  Name :: string
  NumberOfComponents :: nat
  Tuples :: "'s list list"

definition GetNumberOfTuples :: "'s data_array \<Rightarrow> nat" where
  "GetNumberOfTuples a = length (Tuples a)"

text \<open>\<^verbatim>\<open>GetComponent\<close> and \<^verbatim>\<open>SetComponent\<close> do not check their indices.\<close>

definition GetComponent :: "'s data_array \<Rightarrow> nat \<Rightarrow> nat \<Rightarrow> failure + 's" where
  "GetComponent a i l =
     (if i < length (Tuples a) \<and> l < length (Tuples a ! i)
      then Inr (Tuples a ! i ! l) else Inl UndefinedBehaviour)"

definition SetComponent :: "'s data_array \<Rightarrow> nat \<Rightarrow> nat \<Rightarrow> 's \<Rightarrow> failure + 's data_array" where
  "SetComponent a i l v =
     (if i < length (Tuples a) \<and> l < length (Tuples a ! i)
      then Inr (a\<lparr>Tuples := (Tuples a)[i := (Tuples a ! i)[l := v]]\<rparr>)
      else Inl UndefinedBehaviour)"

text \<open>A \<^verbatim>\<open>vtkPolyData\<close>: the number of points, the three cell arrays the code touches
  (each cell the list of its point ids; a null cell array is the empty list), the cell
  data arrays, the point data (its scalars and texture coordinates attributes and its
  other arrays), and whether the cell links are built. Cell arrays are never written by
  the mapper, so they are kept by value.\<close>

record polydata =
  NumberOfPoints :: nat
  Polys :: "nat list list"
  Lines :: "nat list list"
  Verts :: "nat list list"
  CellData :: "addr list"
  PointScalars :: "addr option"
  PointTCoords :: "addr option"
  PointArrays :: "addr list"
  Links :: bool

definition GetNumberOfPolys :: "polydata \<Rightarrow> nat" where
  "GetNumberOfPolys pd = length (Polys pd)"

text \<open>Modelled from the spec: the output mapping \<^verbatim>\<open>PiecewiseLinearMap\<close> (declared in
  mirtk/PiecewiseLinearMap.h, which is not among the sources) pairs the domain mesh
  with the per-point value array; \<^verbatim>\<open>Finalize\<close> hands it both pointers.\<close>

record piecewise_linear_map =
  map_Domain :: "addr option"
  map_Values :: "addr option"

text \<open>The attributes of \<^verbatim>\<open>SurfaceMapper\<close> (those \<^verbatim>\<open>CopyAttributes\<close> lists), followed by
  the store. The three id lists are created anew by every \<^verbatim>\<open>Initialize\<close> and owned by
  the mapper alone, so they are kept by value: point ids are positions (\<open>nat\<close>), the
  signed compact index is an \<open>int\<close>. A \<^verbatim>\<open>vtkIdType\<close> cannot overflow here: the largest
  magnitude stored is the number of points, itself a \<^verbatim>\<open>vtkIdType\<close>.\<close>

record 's state =
  Mesh :: "addr option"
  Surface :: "addr option"
  Input :: "addr option"
  Mask :: "addr option"
  Fixed :: "addr option"
  FixedPoints :: "nat list"
  FreePoints :: "nat list"
  PointIndex :: "int list"
  Values :: "addr option"
  Output :: "piecewise_linear_map option"
  polydatas :: "polydata list"
  arrays :: "'s data_array list"

definition get_polydata :: "'s state \<Rightarrow> addr \<Rightarrow> failure + polydata" where
  "get_polydata st a =
     (if a < length (polydatas st) then Inr (polydatas st ! a) else Inl UndefinedBehaviour)"

definition get_array :: "'s state \<Rightarrow> addr \<Rightarrow> failure + 's data_array" where
  "get_array st a =
     (if a < length (arrays st) then Inr (arrays st ! a) else Inl UndefinedBehaviour)"

definition new_polydata :: "polydata \<Rightarrow> 's state \<Rightarrow> addr \<times> 's state" where
  "new_polydata pd st = (length (polydatas st), st\<lparr>polydatas := polydatas st @ [pd]\<rparr>)"

definition new_array :: "'s data_array \<Rightarrow> 's state \<Rightarrow> addr \<times> 's state" where
  "new_array a st = (length (arrays st), st\<lparr>arrays := arrays st @ [a]\<rparr>)"

definition put_polydata :: "addr \<Rightarrow> polydata \<Rightarrow> 's state \<Rightarrow> 's state" where
  "put_polydata a pd st = st\<lparr>polydatas := (polydatas st)[a := pd]\<rparr>"

definition put_array :: "addr \<Rightarrow> 's data_array \<Rightarrow> 's state \<Rightarrow> 's state" where
  "put_array a arr st = st\<lparr>arrays := (arrays st)[a := arr]\<rparr>"

section \<open>SurfaceMapper::Initialize\<close>

subsection \<open>Check input\<close>

text \<open>\<^verbatim>\<open>p && p->GetNumberOfTuples() != _Mesh->GetNumberOfPoints()\<close> for a pointer \<open>p\<close>.\<close>

definition tuples_differ :: "'s state \<Rightarrow> addr option \<Rightarrow> polydata \<Rightarrow> failure + bool" where
  "tuples_differ st p mesh =
     (case p of
        None \<Rightarrow> Inr False
      | Some a \<Rightarrow> then_do (get_array st a)
          (\<lambda>arr. Inr (GetNumberOfTuples arr \<noteq> NumberOfPoints mesh)))"

text \<open>The four checks at the head of \<^verbatim>\<open>Initialize\<close>, in the order of the source. The
  fourth reads the attribute \<^verbatim>\<open>_Fixed\<close>, as the source does.\<close>

definition CheckInput :: "'s state \<Rightarrow> failure + polydata" where
  "CheckInput st =
     (case Mesh st of
        None \<Rightarrow> Inl (Exit ''Initialize: Missing input surface mesh'')
      | Some mesh \<Rightarrow> then_do (get_polydata st mesh) (\<lambda>meshobj.
          if GetNumberOfPolys meshobj = 0
          then Inl (Exit ''Initialize: Input point set must be a surface mesh'')
          else then_do (tuples_differ st (Input st) meshobj) (\<lambda>bad_input.
            if bad_input then Inl (Exit ''Initialize: Invalid input map values array'')
            else then_do (tuples_differ st (Fixed st) meshobj) (\<lambda>bad_mask.
              if bad_mask then Inl (Exit ''Initialize: Invalid input mask'')
              else Inr meshobj))))"

subsection \<open>Initialize internal surface mesh\<close>

text \<open>\<^verbatim>\<open>NewInstance\<close> creates an empty object of the same class.\<close>

definition empty_polydata :: polydata where
  "empty_polydata = \<lparr>NumberOfPoints = 0, Polys = [], Lines = [], Verts = [], CellData = [],
     PointScalars = None, PointTCoords = None, PointArrays = [], Links = False\<rparr>"

text \<open>\<^verbatim>\<open>ShallowCopy\<close> makes the target refer to the points, cells and arrays of the
  source: every field of the target object is overwritten, the source object is only
  read.\<close>

definition ShallowCopy :: "addr \<Rightarrow> polydata \<Rightarrow> 's state \<Rightarrow> 's state" where
  "ShallowCopy dst src st = put_polydata dst src st"

definition modify_polydata :: "addr \<Rightarrow> (polydata \<Rightarrow> polydata) \<Rightarrow> 's state \<Rightarrow> failure + 's state" where
  "modify_polydata a f st = then_do (get_polydata st a) (\<lambda>pd. Inr (put_polydata a (f pd) st))"

definition InitializeSurface :: "polydata \<Rightarrow> 's state \<Rightarrow> failure + 's state" where
  "InitializeSurface meshobj st0 =
     (let (surface, st1) = new_polydata empty_polydata st0;
          st2 = ShallowCopy surface meshobj (st1\<lparr>Surface := Some surface\<rparr>)
      in then_do (modify_polydata surface (\<lambda>pd. pd\<lparr>Lines := []\<rparr>) st2) (\<lambda>st3.
         then_do (modify_polydata surface (\<lambda>pd. pd\<lparr>Verts := []\<rparr>) st3) (\<lambda>st4.
         then_do (modify_polydata surface (\<lambda>pd. pd\<lparr>CellData := []\<rparr>) st4) (\<lambda>st5.
         modify_polydata surface
           (\<lambda>pd. pd\<lparr>PointScalars := None, PointTCoords := None, PointArrays := []\<rparr>) st5))))"

subsection \<open>Initialize map values at surface points\<close>

text \<open>\<^verbatim>\<open>NewInstance\<close> of a data array is an empty array of the same type; \<^verbatim>\<open>DeepCopy\<close>
  overwrites the target with a copy of the contents of the source.\<close>

definition empty_array :: "'s data_array" where
  "empty_array = \<lparr>Name = [], NumberOfComponents = 1, Tuples = []\<rparr>"

definition DeepCopy :: "addr \<Rightarrow> addr \<Rightarrow> 's state \<Rightarrow> failure + 's state" where
  "DeepCopy dst src st = then_do (get_array st src) (\<lambda>a. Inr (put_array dst a st))"

definition SetName :: "addr \<Rightarrow> string \<Rightarrow> 's state \<Rightarrow> failure + 's state" where
  "SetName a n st = then_do (get_array st a) (\<lambda>arr. Inr (put_array a (arr\<lparr>Name := n\<rparr>) st))"

definition InitializeValues :: "'s state \<Rightarrow> failure + 's state" where
  "InitializeValues st0 =
     (case Input st0 of
        None \<Rightarrow> Inl (Exit ''InitializeValues: Missing boundary conditions'')
      | Some inp \<Rightarrow>
          then_do (get_array st0 inp) (\<lambda>input.
            let (v, st1) = new_array empty_array st0;
                st2 = st1\<lparr>Values := Some v\<rparr>
            in then_do (SetName v (Name input) st2) (\<lambda>st3.
               DeepCopy v inp st3)))"

subsection \<open>Point data, remeshing, links\<close>

definition the_surface :: "'s state \<Rightarrow> failure + polydata" where
  "the_surface st =
     (case Surface st of None \<Rightarrow> Inl UndefinedBehaviour | Some a \<Rightarrow> get_polydata st a)"

text \<open>\<^verbatim>\<open>_Surface->GetPointData()->SetTCoords(_Values)\<close> and \<^verbatim>\<open>SetScalars(_Mask)\<close>.\<close>

definition SetPointData :: "'s state \<Rightarrow> failure + 's state" where
  "SetPointData st =
     (case Surface st of
        None \<Rightarrow> Inl UndefinedBehaviour
      | Some surface \<Rightarrow>
          then_do (modify_polydata surface (\<lambda>pd. pd\<lparr>PointTCoords := Values st\<rparr>) st) (\<lambda>st1.
          modify_polydata surface (\<lambda>pd. pd\<lparr>PointScalars := Mask st\<rparr>) st1))"

text \<open>\<^verbatim>\<open>SurfaceMapper::Remesh\<close>: the base class leaves the surface as it is.\<close>

definition Remesh :: "'s state \<Rightarrow> bool \<times> 's state" where
  "Remesh st = (False, st)"

definition BuildLinks :: "'s state \<Rightarrow> failure + 's state" where
  "BuildLinks st =
     (case Surface st of
        None \<Rightarrow> Inl UndefinedBehaviour
      | Some surface \<Rightarrow> modify_polydata surface (\<lambda>pd. pd\<lparr>Links := True\<rparr>) st)"

subsection \<open>Initialize boundary mask\<close>

text \<open>Modelled from the spec: \<^verbatim>\<open>BoundaryPoints\<close> (declared in mirtk/PointSetUtils.h,
  which is not among the sources) returns the points incident to a boundary edge, a
  boundary edge being an edge used by exactly one polygon. An edge is the unordered
  pair of two consecutive points of a polygon, kept as (smaller id, larger id).\<close>

definition polygon_edges :: "nat list \<Rightarrow> (nat \<times> nat) list" where
  "polygon_edges p = map (\<lambda>(a, b). (min a b, max a b)) (zip p (rotate1 p))"

definition edge_uses :: "nat list list \<Rightarrow> nat \<times> nat \<Rightarrow> nat" where
  "edge_uses polys e = length (filter (\<lambda>p. e \<in> set (polygon_edges p)) polys)"

definition BoundaryEdges :: "polydata \<Rightarrow> (nat \<times> nat) list" where
  "BoundaryEdges pd =
     filter (\<lambda>e. edge_uses (Polys pd) e = 1) (remdups (concat (map polygon_edges (Polys pd))))"

definition BoundaryPoints :: "polydata \<Rightarrow> nat list" where
  "BoundaryPoints pd = remdups (concat (map (\<lambda>(a, b). [a, b]) (BoundaryEdges pd)))"

text \<open>\<^verbatim>\<open>SurfaceMapper::BoundaryMask\<close>. The new array, named, with one component, one
  tuple per surface point and component 0 filled with \<open>0\<close>, is written as one record;
  the loop then stores \<open>1\<close> at every boundary point.\<close>

definition BoundaryMask :: "'s::{zero,one} state \<Rightarrow> failure + 's data_array" where
  "BoundaryMask st =
     then_do (the_surface st) (\<lambda>surface.
       for_each (BoundaryPoints surface) (\<lambda>mask ptId. SetComponent mask ptId 0 1)
         \<lparr>Name = ''FixedPoints'', NumberOfComponents = 1,
          Tuples = replicate (NumberOfPoints surface) [0]\<rparr>)"

definition InitializeMask :: "'s::{zero,one} state \<Rightarrow> failure + 's state" where
  "InitializeMask st =
     then_do (the_surface st) (\<lambda>surface.
       case PointScalars surface of
         Some f \<Rightarrow> Inr (st\<lparr>Fixed := Some f\<rparr>)
       | None \<Rightarrow> then_do (BoundaryMask st) (\<lambda>mask.
           let (f, st1) = new_array mask st in Inr (st1\<lparr>Fixed := Some f\<rparr>)))"

subsection \<open>Set disjoint sets of IDs of free and fixed points\<close>

text \<open>Modelled from the spec: \<^verbatim>\<open>IsFixedPoint\<close> (inline in mirtk/SurfaceMapper.h, which is
  not among the sources) reads the Fixed Mask, a per-point scalar flag that is non-zero
  for a fixed point.\<close>

definition IsFixedPoint :: "'s::zero state \<Rightarrow> nat \<Rightarrow> failure + bool" where
  "IsFixedPoint st ptId =
     (case Fixed st of
        None \<Rightarrow> Inl UndefinedBehaviour
      | Some f \<Rightarrow> then_do (get_array st f) (\<lambda>mask.
          then_do (GetComponent mask ptId 0) (\<lambda>v. Inr (v \<noteq> 0))))"

text \<open>\<^verbatim>\<open>vtkIdList::InsertNextId\<close> appends the id and returns its position;
  \<^verbatim>\<open>SetNumberOfIds\<close> gives the list \<open>n\<close> entries whose contents are whatever the
  allocated memory holds (\<open>junk\<close>). \<^verbatim>\<open>Allocate\<close> and \<^verbatim>\<open>Squeeze\<close> change the capacity
  of a list only and are left out.\<close>

definition InsertNextId :: "nat list \<Rightarrow> nat \<Rightarrow> nat \<times> nat list" where
  "InsertNextId ids x = (length ids, ids @ [x])"

definition SetNumberOfIds :: "nat \<Rightarrow> int list \<Rightarrow> int list" where
  "SetNumberOfIds n junk = take n (junk @ replicate n 0)"

definition partition_step :: "'s::zero state \<Rightarrow> nat \<Rightarrow> failure + 's state" where
  "partition_step st ptId =
     then_do (IsFixedPoint st ptId) (\<lambda>fixed.
       if fixed
       then (let (k, ids) = InsertNextId (FixedPoints st) ptId
             in Inr (st\<lparr>FixedPoints := ids, PointIndex := (PointIndex st)[ptId := - (int k + 1)]\<rparr>))
       else (let (r, ids) = InsertNextId (FreePoints st) ptId
             in Inr (st\<lparr>FreePoints := ids, PointIndex := (PointIndex st)[ptId := int r]\<rparr>)))"

definition InitializePartition :: "int list \<Rightarrow> 's::zero state \<Rightarrow> failure + 's state" where
  "InitializePartition junk st =
     then_do (the_surface st) (\<lambda>surface.
       for_each [0..<NumberOfPoints surface] partition_step
         (st\<lparr>FixedPoints := [], FreePoints := [],
             PointIndex := SetNumberOfIds (NumberOfPoints surface) junk\<rparr>))"

subsection \<open>The whole of Initialize\<close>

definition Initialize :: "int list \<Rightarrow> 's::{zero,one} state \<Rightarrow> failure + 's state" where
  "Initialize junk st0 =
     then_do (CheckInput (st0\<lparr>Output := None\<rparr>)) (\<lambda>meshobj.
     then_do (InitializeSurface meshobj (st0\<lparr>Output := None\<rparr>)) (\<lambda>st1.
     then_do (InitializeValues st1) (\<lambda>st2.
     then_do (SetPointData st2) (\<lambda>st3.
     then_do (let (remeshed, st4) = Remesh st3
              in if remeshed
                 then then_do (the_surface st4) (\<lambda>surface. Inr (st4\<lparr>Values := PointTCoords surface\<rparr>))
                 else Inr st4) (\<lambda>st5.
     then_do (BuildLinks st5) (\<lambda>st6.
     then_do (InitializeMask st6) (\<lambda>st7.
     InitializePartition junk st7)))))))"

section \<open>SymmetricLinearSurfaceMapper::Solve\<close>

subsection \<open>Accessors\<close>

text \<open>Modelled from the spec: the inline accessors of mirtk/SurfaceMapper.h, which is not
  among the sources. \<^verbatim>\<open>FreePointIndex\<close> is the lookup in the Point Index Mapping (the
  signed compact index of a point), \<^verbatim>\<open>FreePointId\<close> the lookup in the list of free
  points, \<^verbatim>\<open>NumberOfFreePoints\<close> the length of that list, \<^verbatim>\<open>NumberOfComponents\<close> the
  component count of the Value Array, and \<^verbatim>\<open>GetValue\<close> and \<^verbatim>\<open>SetValue\<close> read and write
  one component of the Value Array at a point. The C++ \<^verbatim>\<open>int\<close> results are taken
  without truncation.\<close>

definition FreePointIndex :: "'s state \<Rightarrow> nat \<Rightarrow> failure + int" where
  "FreePointIndex st ptId =
     (if ptId < length (PointIndex st) then Inr (PointIndex st ! ptId)
      else Inl UndefinedBehaviour)"

definition FreePointId :: "'s state \<Rightarrow> nat \<Rightarrow> failure + nat" where
  "FreePointId st r =
     (if r < length (FreePoints st) then Inr (FreePoints st ! r) else Inl UndefinedBehaviour)"

definition NumberOfFreePoints :: "'s state \<Rightarrow> nat" where
  "NumberOfFreePoints st = length (FreePoints st)"

definition the_values :: "'s state \<Rightarrow> failure + 's data_array" where
  "the_values st =
     (case Values st of None \<Rightarrow> Inl UndefinedBehaviour | Some v \<Rightarrow> get_array st v)"

definition NumberOfComponents_of :: "'s state \<Rightarrow> failure + nat" where
  "NumberOfComponents_of st = then_do (the_values st) (\<lambda>vals. Inr (NumberOfComponents vals))"

definition GetValue :: "'s state \<Rightarrow> nat \<Rightarrow> nat \<Rightarrow> failure + 's" where
  "GetValue st i l = then_do (the_values st) (\<lambda>vals. GetComponent vals i l)"

definition SetValue :: "'s state \<Rightarrow> nat \<Rightarrow> nat \<Rightarrow> 's \<Rightarrow> failure + 's state" where
  "SetValue st i l x =
     (case Values st of
        None \<Rightarrow> Inl UndefinedBehaviour
      | Some v \<Rightarrow> then_do (get_array st v) (\<lambda>vals.
          then_do (SetComponent vals i l x) (\<lambda>vals'. Inr (put_array v vals' st))))"

subsection \<open>Assembling the linear system\<close>

text \<open>The locals of the assembly block: the triplet list \<^verbatim>\<open>w\<close>, the dense right-hand
  side \<^verbatim>\<open>b\<close> (one row per free point, one column per component) and the diagonal
  accumulator \<^verbatim>\<open>w_ii\<close>. \<^verbatim>\<open>Weight\<close> is a pure virtual member function that the concrete
  mapper supplies; it is a parameter here, and \<open>weight_calls\<close> records the arguments
  of every call made to it, in order.\<close>

record 's linear_system =
  triplets :: "(int \<times> int \<times> 's) list"
  rhs :: "'s list list"
  diag :: "'s list"
  weight_calls :: "(nat \<times> nat) list"

text \<open>\<^verbatim>\<open>b(r, l) += x\<close> and \<^verbatim>\<open>w_ii[r] += x\<close>; neither checks its indices.\<close>

definition add_to_rhs :: "nat \<Rightarrow> nat \<Rightarrow> 's::plus \<Rightarrow> 's linear_system \<Rightarrow> failure + 's linear_system" where
  "add_to_rhs r l x sys =
     (if r < length (rhs sys) \<and> l < length (rhs sys ! r)
      then Inr (sys\<lparr>rhs := (rhs sys)[r := (rhs sys ! r)[l := rhs sys ! r ! l + x]]\<rparr>)
      else Inl UndefinedBehaviour)"

definition add_to_diag :: "nat \<Rightarrow> 's::plus \<Rightarrow> 's linear_system \<Rightarrow> failure + 's linear_system" where
  "add_to_diag r x sys =
     (if r < length (diag sys) then Inr (sys\<lparr>diag := (diag sys)[r := diag sys ! r + x]\<rparr>)
      else Inl UndefinedBehaviour)"

text \<open>\<^verbatim>\<open>for (l = 0; l < m; ++l) b(r, l) += w_ij * GetValue(j, l);\<close>\<close>

definition fold_into_rhs ::
  "'s::{plus,times} state \<Rightarrow> nat \<Rightarrow> 's \<Rightarrow> int \<Rightarrow> nat \<Rightarrow> 's linear_system \<Rightarrow> failure + 's linear_system" where
  "fold_into_rhs st m w_ij r j sys =
     for_each [0..<m]
       (\<lambda>sys l. then_do (GetValue st j l) (\<lambda>v. add_to_rhs (nat r) l (w_ij * v) sys)) sys"

text \<open>The body of the edge loop for the edge \<open>(i, j)\<close>.\<close>

definition edge_step ::
  "(nat \<Rightarrow> nat \<Rightarrow> 's) \<Rightarrow> 's::{plus,times,uminus} state \<Rightarrow> nat \<Rightarrow> 's linear_system \<Rightarrow> nat \<times> nat
     \<Rightarrow> failure + 's linear_system" where
  "edge_step Weight st m sys e =
     (case e of (i, j) \<Rightarrow>
      then_do (FreePointIndex st i) (\<lambda>r.
      then_do (FreePointIndex st j) (\<lambda>c.
        if r \<ge> 0 \<or> c \<ge> 0 then
          (let w_ij = Weight i j;
               sys1 = sys\<lparr>weight_calls := weight_calls sys @ [(i, j)]\<rparr>
           in then_do
                (if r \<ge> 0 \<and> c \<ge> 0
                 then Inr (sys1\<lparr>triplets := triplets sys1 @ [(r, c, - w_ij), (c, r, - w_ij)]\<rparr>)
                 else if r \<ge> 0 then fold_into_rhs st m w_ij r j sys1
                 else if c \<ge> 0 then fold_into_rhs st m w_ij c i sys1
                 else Inr sys1) (\<lambda>sys2.
              then_do (if r \<ge> 0 then add_to_diag (nat r) w_ij sys2 else Inr sys2) (\<lambda>sys3.
              if c \<ge> 0 then add_to_diag (nat c) w_ij sys3 else Inr sys3)))
        else Inr sys)))"

text \<open>The assembly block: the edge loop over the edges in the order the edge iterator
  yields them, from \<^verbatim>\<open>b.setZero()\<close>, an empty \<^verbatim>\<open>w\<close> and \<^verbatim>\<open>w_ii(n, .0)\<close>; then one
  diagonal triplet per free point.\<close>

definition AssembleSystem ::
  "(nat \<Rightarrow> nat \<Rightarrow> 's) \<Rightarrow> (nat \<times> nat) list \<Rightarrow> 's::{zero,plus,times,uminus} state \<Rightarrow> nat \<Rightarrow> nat
     \<Rightarrow> failure + 's linear_system" where
  "AssembleSystem Weight edges st n m =
     then_do
       (for_each edges (edge_step Weight st m)
          \<lparr>triplets = [], rhs = replicate n (replicate m 0), diag = replicate n 0,
           weight_calls = []\<rparr>) (\<lambda>sys.
     Inr (sys\<lparr>triplets := triplets sys @ map (\<lambda>r. (int r, int r, diag sys ! r)) [0..<n]\<rparr>))"

text \<open>Modelled from the spec: \<^verbatim>\<open>setFromTriplets\<close> of the sparse solver library builds the
  matrix whose entry at a position is the sum of the values of the triplets with that
  position (duplicates accumulate by summation, in the order of the list); a position
  without a triplet holds \<open>0\<close>. The matrix is kept as its coefficient function.\<close>

definition sum_duplicates :: "'s::{zero,plus} list \<Rightarrow> 's" where
  "sum_duplicates vs = (case vs of [] \<Rightarrow> 0 | v # rest \<Rightarrow> foldl (+) v rest)"

definition setFromTriplets :: "(int \<times> int \<times> 's::{zero,plus}) list \<Rightarrow> int \<Rightarrow> int \<Rightarrow> 's" where
  "setFromTriplets ts r c =
     sum_duplicates (map (\<lambda>(r', c', v). v) (filter (\<lambda>(r', c', v). r' = r \<and> c' = c) ts))"

subsection \<open>Initial guess, solve, write back\<close>

text \<open>Filling a row or a matrix entry by entry; it stops at the first failure.\<close>

primrec map_each :: "('b \<Rightarrow> failure + 'a) \<Rightarrow> 'b list \<Rightarrow> failure + 'a list" where
  "map_each f [] = Inr []"
| "map_each f (x # xs) = then_do (f x) (\<lambda>y. then_do (map_each f xs) (\<lambda>ys. Inr (y # ys)))"

definition InitialGuess :: "'s state \<Rightarrow> nat \<Rightarrow> nat \<Rightarrow> failure + 's list list" where
  "InitialGuess st n m =
     map_each (\<lambda>r. then_do (FreePointId st r) (\<lambda>i. map_each (\<lambda>l. GetValue st i l) [0..<m]))
       [0..<n]"

definition coefficient :: "'s list list \<Rightarrow> nat \<Rightarrow> nat \<Rightarrow> failure + 's" where
  "coefficient x r l =
     (if r < length x \<and> l < length (x ! r) then Inr (x ! r ! l) else Inl UndefinedBehaviour)"

definition WriteBack :: "'s list list \<Rightarrow> nat \<Rightarrow> nat \<Rightarrow> 's state \<Rightarrow> failure + 's state" where
  "WriteBack x n m st0 =
     for_each [0..<n]
       (\<lambda>st r. then_do (FreePointId st r) (\<lambda>i.
          for_each [0..<m]
            (\<lambda>st l. then_do (coefficient x r l) (\<lambda>v. SetValue st i l v)) st)) st0"

text \<open>\<^verbatim>\<open>Solve\<close>. Its parameters are what the class leaves to others: the weight policy
  \<open>Weight\<close>, the edge traversal of the surface \<open>EdgeTable\<close> (the edges in the order
  \<^verbatim>\<open>GetNextEdge\<close> yields them), and the conjugate gradient solver \<open>solveWithGuess\<close>
  with its iteration and tolerance settings, a function of the matrix, the right-hand
  side and the initial guess. The verbose report is left out.\<close>

definition Solve ::
  "(nat \<Rightarrow> nat \<Rightarrow> 's) \<Rightarrow> (polydata \<Rightarrow> (nat \<times> nat) list)
     \<Rightarrow> ((int \<Rightarrow> int \<Rightarrow> 's) \<Rightarrow> 's list list \<Rightarrow> 's list list \<Rightarrow> 's list list)
     \<Rightarrow> 's::{zero,plus,times,uminus} state \<Rightarrow> failure + 's state" where
  "Solve Weight EdgeTable solveWithGuess st =
     then_do (NumberOfComponents_of st) (\<lambda>m.
     then_do (the_surface st) (\<lambda>surface.
     then_do (AssembleSystem Weight (EdgeTable surface) st (NumberOfFreePoints st) m) (\<lambda>sys.
     then_do (InitialGuess st (NumberOfFreePoints st) m) (\<lambda>x0.
     WriteBack (solveWithGuess (setFromTriplets (triplets sys)) (rhs sys) x0)
       (NumberOfFreePoints st) m st))))"

section \<open>SurfaceMapper::Finalize and SurfaceMapper::Run\<close>

definition Finalize :: "'s state \<Rightarrow> 's state" where
  "Finalize st =
     (if Output st = None
      then st\<lparr>Output := Some \<lparr>map_Domain = Surface st, map_Values = Values st\<rparr>\<rparr>
      else st)"

definition Run ::
  "int list \<Rightarrow> (nat \<Rightarrow> nat \<Rightarrow> 's) \<Rightarrow> (polydata \<Rightarrow> (nat \<times> nat) list)
     \<Rightarrow> ((int \<Rightarrow> int \<Rightarrow> 's) \<Rightarrow> 's list list \<Rightarrow> 's list list \<Rightarrow> 's list list)
     \<Rightarrow> 's::{zero,one,plus,times,uminus} state \<Rightarrow> failure + 's state" where
  "Run junk Weight EdgeTable solveWithGuess st =
     then_do (Initialize junk st) (\<lambda>st1.
     then_do (Solve Weight EdgeTable solveWithGuess st1) (\<lambda>st2.
     Inr (Finalize st2)))"

section \<open>Closed forms used in the proofs\<close>

text \<open>\<open>fixed_in st i\<close>: the mask read for point \<open>i\<close> succeeds and says fixed.
  \<open>compact_index fx i\<close> is the signed compact index the partition loop gives point
  \<open>i\<close> when \<open>fx\<close> tells the fixed points: a fixed point with \<open>k\<close> fixed points before
  it gets \<open>-(k+1)\<close>, a free point with \<open>r\<close> free points before it gets \<open>r\<close>.\<close>

definition fixed_in :: "'s::zero state \<Rightarrow> nat \<Rightarrow> bool" where
  "fixed_in st i \<longleftrightarrow> IsFixedPoint st i = Inr True"

definition compact_index :: "(nat \<Rightarrow> bool) \<Rightarrow> nat \<Rightarrow> int" where
  "compact_index fx i = (if fx i then - (int (length (filter fx [0..<i])) + 1)
                         else int (length (filter (\<lambda>j. \<not> fx j) [0..<i])))"

text \<open>\<open>edge_entries\<close>: the triplets the edge loop appends for one edge (two for an edge
  between free points, none otherwise). \<open>add_at r x d\<close>: the diagonal accumulator after
  \<^verbatim>\<open>if (r >= 0) w_ii[r] += x\<close>.\<close>

definition edge_entries ::
  "(nat \<Rightarrow> nat \<Rightarrow> 's::uminus) \<Rightarrow> int list \<Rightarrow> nat \<times> nat \<Rightarrow> (int \<times> int \<times> 's) list" where
  "edge_entries Weight idx e =
     (case e of (i, j) \<Rightarrow>
        if 0 \<le> idx ! i \<and> 0 \<le> idx ! j
        then [(idx ! i, idx ! j, - Weight i j), (idx ! j, idx ! i, - Weight i j)] else [])"

definition add_at :: "int \<Rightarrow> 's::plus \<Rightarrow> 's list \<Rightarrow> 's list" where
  "add_at r x d = (if 0 \<le> r then d[nat r := d ! nat r + x] else d)"

text \<open>\<open>only_rows_changed S st st'\<close>: the state \<open>st'\<close> is \<open>st\<close> except for the contents of
  the working value array, and there except for the tuples of the points in \<open>S\<close>.\<close>

definition only_rows_changed :: "nat set \<Rightarrow> 's state \<Rightarrow> 's state \<Rightarrow> bool" where
  "only_rows_changed S st st' \<longleftrightarrow>
     st' = st\<lparr>arrays := arrays st'\<rparr> \<and> length (arrays st') = length (arrays st) \<and>
     (\<forall>a. Values st \<noteq> Some a \<longrightarrow> arrays st' ! a = arrays st ! a) \<and>
     (\<forall>v. Values st = Some v \<longrightarrow>
        Name (arrays st' ! v) = Name (arrays st ! v) \<and>
        NumberOfComponents (arrays st' ! v) = NumberOfComponents (arrays st ! v) \<and>
        length (Tuples (arrays st' ! v)) = length (Tuples (arrays st ! v)) \<and>
        (\<forall>i. i \<notin> S \<longrightarrow> Tuples (arrays st' ! v) ! i = Tuples (arrays st ! v) ! i))"

section \<open>Example inputs\<close>

text \<open>A fan of four triangles around point 4, with one line cell and one vertex cell
  besides; the map values are two-dimensional and the four rim points carry the corners
  of the unit square. No mask is given.\<close>

definition fan_mesh :: polydata where
  "fan_mesh = \<lparr>NumberOfPoints = 5, Polys = [[0, 1, 4], [1, 2, 4], [2, 3, 4], [3, 0, 4]],
     Lines = [[0, 1]], Verts = [[4]], CellData = [], PointScalars = None,
     PointTCoords = None, PointArrays = [], Links = False\<rparr>"

definition fan_input :: "real data_array" where
  "fan_input = \<lparr>Name = ''Map'', NumberOfComponents = 2,
     Tuples = [[0, 0], [1, 0], [1, 1], [0, 1], [0, 0]]\<rparr>"

definition fan_state :: "real state" where
  "fan_state = \<lparr>Mesh = Some 0, Surface = None, Input = Some 0, Mask = None, Fixed = None,
     FixedPoints = [], FreePoints = [], PointIndex = [], Values = None, Output = None,
     polydatas = [fan_mesh], arrays = [fan_input]\<rparr>"

definition fan_initialized :: "real state" where
  "fan_initialized = \<lparr>Mesh = Some 0, Surface = Some 1, Input = Some 0, Mask = None,
     Fixed = Some 2, FixedPoints = [0, 1, 2, 3], FreePoints = [4],
     PointIndex = [- 1, - 2, - 3, - 4, 0], Values = Some 1, Output = None,
     polydatas =
       [fan_mesh,
        \<lparr>NumberOfPoints = 5, Polys = [[0, 1, 4], [1, 2, 4], [2, 3, 4], [3, 0, 4]],
         Lines = [], Verts = [], CellData = [], PointScalars = None,
         PointTCoords = Some 1, PointArrays = [], Links = True\<rparr>],
     arrays =
       [fan_input, fan_input,
        \<lparr>Name = ''FixedPoints'', NumberOfComponents = 1,
         Tuples = [[1], [1], [1], [1], [0]]\<rparr>]\<rparr>"

definition fan_surface :: "addr option \<Rightarrow> addr \<Rightarrow> polydata" where
  "fan_surface scalars v = \<lparr>NumberOfPoints = 5,
     Polys = [[0, 1, 4], [1, 2, 4], [2, 3, 4], [3, 0, 4]], Lines = [], Verts = [],
     CellData = [], PointScalars = scalars, PointTCoords = Some v, PointArrays = [],
     Links = True\<rparr>"

text \<open>The parameters of \<^verbatim>\<open>Solve\<close> for the examples: the eight edges of the fan, the
  weight 1 on every edge, and a solver that divides each right-hand side row by the
  diagonal entry of its row.\<close>

definition fan_edges :: "polydata \<Rightarrow> (nat \<times> nat) list" where
  "fan_edges pd = [(0, 1), (0, 3), (0, 4), (1, 2), (1, 4), (2, 3), (2, 4), (3, 4)]"

definition unit_weight :: "nat \<Rightarrow> nat \<Rightarrow> real" where
  "unit_weight i j = 1"

definition diagonal_solver ::
  "(int \<Rightarrow> int \<Rightarrow> real) \<Rightarrow> real list list \<Rightarrow> real list list \<Rightarrow> real list list" where
  "diagonal_solver A b x0 = map (\<lambda>r. map (\<lambda>v. v / A (int r) (int r)) (b ! r)) [0..<length b]"

text \<open>The fan with a caller-supplied mask that has six tuples for the five points of
  the mesh, on a mapper that has not run before (\<^verbatim>\<open>_Fixed\<close> is null).\<close>

definition long_mask :: "real data_array" where
  "long_mask = \<lparr>Name = ''Mask'', NumberOfComponents = 1,
     Tuples = [[1], [1], [1], [0], [0], [0]]\<rparr>"

definition long_mask_state :: "real state" where
  "long_mask_state = \<lparr>Mesh = Some 0, Surface = None, Input = Some 0, Mask = Some 1,
     Fixed = None, FixedPoints = [], FreePoints = [], PointIndex = [], Values = None,
     Output = None, polydatas = [fan_mesh], arrays = [fan_input, long_mask]\<rparr>"

definition long_mask_initialized :: "real state" where
  "long_mask_initialized = \<lparr>Mesh = Some 0, Surface = Some 1, Input = Some 0, Mask = Some 1,
     Fixed = Some 1, FixedPoints = [0, 1, 2], FreePoints = [3, 4],
     PointIndex = [- 1, - 2, - 3, 0, 1], Values = Some 2, Output = None,
     polydatas = [fan_mesh, fan_surface (Some 1) 2],
     arrays = [fan_input, long_mask, fan_input]\<rparr>"

definition long_mask_after_run :: "real state" where
  "long_mask_after_run = long_mask_initialized
     \<lparr>Output := Some \<lparr>map_Domain = Some 1, map_Values = Some 2\<rparr>,
      arrays := [fan_input, long_mask,
        \<lparr>Name = ''Map'', NumberOfComponents = 2,
         Tuples = [[0, 0], [1, 0], [1, 1], [1 / 3, 1 / 3], [1 / 2, 1 / 4]]\<rparr>]\<rparr>"

text \<open>The fan with a mask of five tuples that fixes the points 0, 1 and 2; the state
  after \<^verbatim>\<open>Initialize\<close>, the empty linear system for its two free points and two
  components, and the system assembled from the eight edges with weight 1.\<close>

definition fan_mask :: "real data_array" where
  "fan_mask = \<lparr>Name = ''Mask'', NumberOfComponents = 1, Tuples = [[1], [1], [1], [0], [0]]\<rparr>"

definition masked_state :: "real state" where
  "masked_state = \<lparr>Mesh = Some 0, Surface = None, Input = Some 0, Mask = Some 1,
     Fixed = None, FixedPoints = [], FreePoints = [], PointIndex = [], Values = None,
     Output = None, polydatas = [fan_mesh], arrays = [fan_input, fan_mask]\<rparr>"

definition masked_initialized :: "real state" where
  "masked_initialized = \<lparr>Mesh = Some 0, Surface = Some 1, Input = Some 0, Mask = Some 1,
     Fixed = Some 1, FixedPoints = [0, 1, 2], FreePoints = [3, 4],
     PointIndex = [- 1, - 2, - 3, 0, 1], Values = Some 2, Output = None,
     polydatas = [fan_mesh, fan_surface (Some 1) 2],
     arrays = [fan_input, fan_mask, fan_input]\<rparr>"


definition fan_system :: "real linear_system" where
  "fan_system = \<lparr>triplets = [(0, 1, - 1), (1, 0, - 1), (0, 0, 3), (1, 1, 4)],
     rhs = [[1, 1], [2, 1]], diag = [3, 4],
     weight_calls = [(0, 3), (0, 4), (1, 4), (2, 3), (2, 4), (3, 4)]\<rparr>"

text \<open>The same mapper after \<^verbatim>\<open>Solve\<close> and after \<^verbatim>\<open>Finalize\<close>.\<close>

definition masked_solved :: "real state" where
  "masked_solved = masked_initialized
     \<lparr>arrays := [fan_input, fan_mask,
        \<lparr>Name = ''Map'', NumberOfComponents = 2,
         Tuples = [[0, 0], [1, 0], [1, 1], [1 / 3, 1 / 3], [1 / 2, 1 / 4]]\<rparr>]\<rparr>"

definition masked_after_run :: "real state" where
  "masked_after_run = masked_solved\<lparr>Output := Some \<lparr>map_Domain = Some 1, map_Values = Some 2\<rparr>\<rparr>"

section \<open>Basic facts\<close>


lemma then_do_Inr [simp]: "then_do (Inr x) f = f x" by (simp add: then_do_def)
lemma then_do_Inl [simp]: "then_do (Inl e) f = Inl e" by (simp add: then_do_def)
lemma then_do_eq_Inr: "then_do m f = Inr y \<longleftrightarrow> (\<exists>x. m = Inr x \<and> f x = Inr y)"
  by (cases m) simp_all

lemma then_do_return [simp]: "then_do m Inr = m"
  by (cases m) simp_all

lemma for_each_append: "for_each (xs @ ys) body s = then_do (for_each xs body s) (for_each ys body)"
  by (induction xs arbitrary: s) (auto simp: then_do_def split: sum.splits)

lemma get_polydata_Inr: "get_polydata st a = Inr pd \<longleftrightarrow> a < length (polydatas st) \<and> pd = polydatas st ! a"
  by (auto simp: get_polydata_def)

lemma get_array_Inr: "get_array st a = Inr arr \<longleftrightarrow> a < length (arrays st) \<and> arr = arrays st ! a"
  by (auto simp: get_array_def)

lemma tuples_differ_Inr:
  "tuples_differ st p mesh = Inr False \<longleftrightarrow>
     (case p of None \<Rightarrow> True
      | Some a \<Rightarrow> a < length (arrays st) \<and> length (Tuples (arrays st ! a)) = NumberOfPoints mesh)"
  by (auto simp: tuples_differ_def then_do_eq_Inr get_array_Inr GetNumberOfTuples_def split: option.splits)

lemma CheckInput_Inr:
  "CheckInput st = Inr meshobj \<longleftrightarrow>
     (\<exists>m. Mesh st = Some m \<and> m < length (polydatas st) \<and> meshobj = polydatas st ! m
        \<and> Polys meshobj \<noteq> []
        \<and> tuples_differ st (Input st) meshobj = Inr False
        \<and> tuples_differ st (Fixed st) meshobj = Inr False)"
proof (cases "Mesh st")
  case None
  then show ?thesis by (simp add: CheckInput_def)
next
  case (Some m)
  show ?thesis
  proof (cases "m < length (polydatas st)")
    case False
    then show ?thesis using Some by (simp add: CheckInput_def get_polydata_def)
  next
    case True
    have *: "\<And>x y. (then_do x (\<lambda>b. if b then Inl y else Inr meshobj') = Inr meshobj) \<longleftrightarrow> (x = Inr False \<and> meshobj' = meshobj)" for meshobj'
      by (auto simp: then_do_eq_Inr)
    show ?thesis using Some True
      by (cases "tuples_differ st (Input st) (polydatas st ! m)"; cases "tuples_differ st (Fixed st) (polydatas st ! m)")
         (auto simp add: CheckInput_def get_polydata_def GetNumberOfPolys_def)
  qed
qed

lemma InitializeSurface_eq:
  "InitializeSurface meshobj st =
     Inr (st\<lparr>Surface := Some (length (polydatas st)),
             polydatas := polydatas st @ [meshobj\<lparr>Lines := [], Verts := [], CellData := [],
                PointScalars := None, PointTCoords := None, PointArrays := []\<rparr>]\<rparr>)"
  by (simp add: InitializeSurface_def new_polydata_def ShallowCopy_def modify_polydata_def
      get_polydata_def put_polydata_def)

lemma InitializeValues_eq:
  "Input st = Some inp \<Longrightarrow> inp < length (arrays st) \<Longrightarrow>
   InitializeValues st =
     Inr (st\<lparr>Values := Some (length (arrays st)), arrays := arrays st @ [arrays st ! inp]\<rparr>)"
  by (simp add: InitializeValues_def new_array_def SetName_def DeepCopy_def get_array_def
      put_array_def nth_append Let_def)

lemma InitializeValues_None:
  "Input st = None \<Longrightarrow>
   InitializeValues st = Inl (Exit ''InitializeValues: Missing boundary conditions'')"
  by (simp add: InitializeValues_def)

lemma SetPointData_eq:
  "Surface st = Some s \<Longrightarrow> s < length (polydatas st) \<Longrightarrow>
   SetPointData st = Inr (st\<lparr>polydatas := (polydatas st)[s := (polydatas st ! s)\<lparr>PointTCoords := Values st, PointScalars := Mask st\<rparr>]\<rparr>)"
  by (simp add: SetPointData_def modify_polydata_def get_polydata_def put_polydata_def)

lemma BuildLinks_eq:
  "Surface st = Some s \<Longrightarrow> s < length (polydatas st) \<Longrightarrow>
   BuildLinks st = Inr (st\<lparr>polydatas := (polydatas st)[s := (polydatas st ! s)\<lparr>Links := True\<rparr>]\<rparr>)"
  by (simp add: BuildLinks_def modify_polydata_def get_polydata_def put_polydata_def)

lemma the_surface_eq:
  "Surface st = Some s \<Longrightarrow> s < length (polydatas st) \<Longrightarrow> the_surface st = Inr (polydatas st ! s)"
  by (simp add: the_surface_def get_polydata_def)


lemma partition_step_Inr:
  assumes "partition_step st i = Inr st'"
  shows "\<exists>b. IsFixedPoint st i = Inr b \<and>
     st' = (if b then st\<lparr>FixedPoints := FixedPoints st @ [i], PointIndex := (PointIndex st)[i := - (int (length (FixedPoints st)) + 1)]\<rparr>
            else st\<lparr>FreePoints := FreePoints st @ [i], PointIndex := (PointIndex st)[i := int (length (FreePoints st))]\<rparr>)"
proof -
  from assms obtain b where b: "IsFixedPoint st i = Inr b"
    unfolding partition_step_def then_do_eq_Inr by blast
  with assms have "st' = (if b then st\<lparr>FixedPoints := FixedPoints st @ [i], PointIndex := (PointIndex st)[i := - (int (length (FixedPoints st)) + 1)]\<rparr>
            else st\<lparr>FreePoints := FreePoints st @ [i], PointIndex := (PointIndex st)[i := int (length (FreePoints st))]\<rparr>)"
    by (cases b) (auto simp add: partition_step_def InsertNextId_def)
  with b show ?thesis by blast
qed

lemma IsFixedPoint_cong:
  "Fixed st' = Fixed st \<Longrightarrow> arrays st' = arrays st \<Longrightarrow> IsFixedPoint st' = IsFixedPoint st"
  by (rule ext) (simp add: IsFixedPoint_def get_array_def split: option.splits)

lemma partition_loop:
  assumes "for_each [0..<k] partition_step st0 = Inr st"
    and "FixedPoints st0 = []" and "FreePoints st0 = []" and "k \<le> length (PointIndex st0)"
  shows "st = st0\<lparr>FixedPoints := filter (fixed_in st0) [0..<k],
                  FreePoints := filter (\<lambda>i. \<not> fixed_in st0 i) [0..<k],
                  PointIndex := map (compact_index (fixed_in st0)) [0..<k] @ drop k (PointIndex st0)\<rparr>
         \<and> (\<forall>i<k. \<exists>b. IsFixedPoint st0 i = Inr b)"
  using assms(1,4)
proof (induction k arbitrary: st)
  case 0
  then show ?case using assms(2,3) by simp
next
  case (Suc k)
  let ?fx = "fixed_in st0"
  from Suc.prems(1) obtain st1 where l: "for_each [0..<k] partition_step st0 = Inr st1"
    and s: "partition_step st1 k = Inr st"
    by (auto simp: for_each_append then_do_eq_Inr)
  from Suc.IH[OF l] Suc.prems(2)
  have st1: "st1 = st0\<lparr>FixedPoints := filter ?fx [0..<k], FreePoints := filter (\<lambda>i. \<not> ?fx i) [0..<k],
                  PointIndex := map (compact_index ?fx) [0..<k] @ drop k (PointIndex st0)\<rparr>"
    and ex: "\<forall>i<k. \<exists>b. IsFixedPoint st0 i = Inr b" by auto
  have same: "IsFixedPoint st1 = IsFixedPoint st0"
    by (rule IsFixedPoint_cong) (simp_all add: st1)
  from partition_step_Inr[OF s] obtain b where b: "IsFixedPoint st0 k = Inr b"
    and st: "st = (if b then st1\<lparr>FixedPoints := FixedPoints st1 @ [k], PointIndex := (PointIndex st1)[k := - (int (length (FixedPoints st1)) + 1)]\<rparr>
            else st1\<lparr>FreePoints := FreePoints st1 @ [k], PointIndex := (PointIndex st1)[k := int (length (FreePoints st1))]\<rparr>)"
    unfolding same by blast
  have fxk: "?fx k = b" using b by (simp add: fixed_in_def)
  have upd: "\<And>v. (map (compact_index ?fx) [0..<k] @ drop k (PointIndex st0))[k := v]
       = map (compact_index ?fx) [0..<k] @ v # drop (Suc k) (PointIndex st0)"
  proof -
    fix v
    have "k < length (PointIndex st0)" using Suc.prems(2) by simp
    then have "(drop k (PointIndex st0))[0 := v] = v # drop (Suc k) (PointIndex st0)"
      by (metis Cons_nth_drop_Suc list_update_code(2))
    then show "(map (compact_index ?fx) [0..<k] @ drop k (PointIndex st0))[k := v]
       = map (compact_index ?fx) [0..<k] @ v # drop (Suc k) (PointIndex st0)"
      by (simp add: list_update_append)
  qed
  have "st = st0\<lparr>FixedPoints := filter ?fx [0..<Suc k], FreePoints := filter (\<lambda>i. \<not> ?fx i) [0..<Suc k],
                  PointIndex := map (compact_index ?fx) [0..<Suc k] @ drop (Suc k) (PointIndex st0)\<rparr>"
    using fxk by (cases b) (simp_all add: st st1 upd compact_index_def)
  moreover have "\<forall>i<Suc k. \<exists>b. IsFixedPoint st0 i = Inr b"
    using ex b by (auto simp: less_Suc_eq)
  ultimately show ?case by blast
qed

lemma length_SetNumberOfIds [simp]: "length (SetNumberOfIds n junk) = n"
  by (simp add: SetNumberOfIds_def)

lemma InitializePartition_Inr:
  assumes "InitializePartition junk st0 = Inr st" and "the_surface st0 = Inr surface"
  shows "st = st0\<lparr>FixedPoints := filter (fixed_in st0) [0..<NumberOfPoints surface],
                  FreePoints := filter (\<lambda>i. \<not> fixed_in st0 i) [0..<NumberOfPoints surface],
                  PointIndex := map (compact_index (fixed_in st0)) [0..<NumberOfPoints surface]\<rparr>
         \<and> (\<forall>i<NumberOfPoints surface. \<exists>b. IsFixedPoint st0 i = Inr b)"
proof -
  let ?P = "NumberOfPoints surface"
  let ?s = "st0\<lparr>FixedPoints := [], FreePoints := [], PointIndex := SetNumberOfIds ?P junk\<rparr>"
  have loop: "for_each [0..<?P] partition_step ?s = Inr st"
    using assms by (simp add: InitializePartition_def)
  have same: "IsFixedPoint ?s = IsFixedPoint st0"
    by (rule IsFixedPoint_cong) simp_all
  then have fx: "fixed_in ?s = fixed_in st0"
    by (simp add: fixed_in_def fun_eq_iff)
  from partition_loop[OF loop] show ?thesis
    unfolding fx same by simp
qed

lemma the_surface_cong:
  "Surface st' = Surface st \<Longrightarrow> polydatas st' = polydatas st \<Longrightarrow> the_surface st' = the_surface st"
  by (simp add: the_surface_def get_polydata_def split: option.splits)

lemma BoundaryMask_cong: "the_surface st' = the_surface st \<Longrightarrow> BoundaryMask st' = BoundaryMask st"
  by (simp add: BoundaryMask_def)

lemma InitializeMask_Inr:
  assumes "InitializeMask st = Inr st'" and "the_surface st = Inr surface"
  shows "(case PointScalars surface of
            Some f \<Rightarrow> st' = st\<lparr>Fixed := Some f\<rparr>
          | None \<Rightarrow> \<exists>bm. BoundaryMask st = Inr bm \<and>
               st' = st\<lparr>Fixed := Some (length (arrays st)), arrays := arrays st @ [bm]\<rparr>)"
  using assms
  by (cases "PointScalars surface")
     (auto simp add: InitializeMask_def then_do_eq_Inr new_array_def)


lemma Initialize_Inr:
  assumes init: "Initialize junk st0 = Inr st"
  obtains m inp f extra where
    "Mesh st0 = Some m" and "m < length (polydatas st0)" and "Polys (polydatas st0 ! m) \<noteq> []"
    and "Input st0 = Some inp" and "inp < length (arrays st0)"
    and "length (Tuples (arrays st0 ! inp)) = NumberOfPoints (polydatas st0 ! m)"
    and "Mesh st = Mesh st0" and "Input st = Input st0" and "Mask st = Mask st0"
    and "Surface st = Some (length (polydatas st0))" and "Fixed st = Some f"
    and "Values st = Some (length (arrays st0))" and "Output st = None"
    and "FixedPoints st = filter (fixed_in st) [0..<NumberOfPoints (polydatas st0 ! m)]"
    and "FreePoints st = filter (\<lambda>i. \<not> fixed_in st i) [0..<NumberOfPoints (polydatas st0 ! m)]"
    and "PointIndex st = map (compact_index (fixed_in st)) [0..<NumberOfPoints (polydatas st0 ! m)]"
    and "polydatas st = polydatas st0 @
             [(polydatas st0 ! m)\<lparr>Lines := [], Verts := [], CellData := [],
                PointScalars := Mask st0, PointTCoords := Some (length (arrays st0)),
                PointArrays := [], Links := True\<rparr>]"
    and "arrays st = arrays st0 @ arrays st0 ! inp # extra"
    and "\<forall>i<NumberOfPoints (polydatas st0 ! m). \<exists>b. IsFixedPoint st i = Inr b"
    and "(Mask st0 = Some f \<and> extra = []) \<or>
         (Mask st0 = None \<and> f = Suc (length (arrays st0)) \<and> BoundaryMask st = Inr (hd extra)
            \<and> extra = [hd extra])"
proof -
  let ?sa = "st0\<lparr>Output := None\<rparr>"
  from init obtain meshobj s1 s2 s3 s5 s6 s7 where
    c: "CheckInput ?sa = Inr meshobj"
    and i1: "InitializeSurface meshobj ?sa = Inr s1"
    and i2: "InitializeValues s1 = Inr s2"
    and i3: "SetPointData s2 = Inr s3"
    and i5: "(let (remeshed, st4) = Remesh s3
              in if remeshed
                 then then_do (the_surface st4) (\<lambda>surface. Inr (st4\<lparr>Values := PointTCoords surface\<rparr>))
                 else Inr st4) = Inr s5"
    and i6: "BuildLinks s5 = Inr s6"
    and i7: "InitializeMask s6 = Inr s7"
    and i8: "InitializePartition junk s7 = Inr st"
    unfolding Initialize_def then_do_eq_Inr by blast
  from c obtain m where m: "Mesh st0 = Some m" "m < length (polydatas st0)"
    "meshobj = polydatas st0 ! m" "Polys meshobj \<noteq> []"
    and td: "tuples_differ ?sa (Input st0) meshobj = Inr False"
    unfolding CheckInput_Inr by auto
  let ?L = "length (polydatas st0)" and ?V = "length (arrays st0)"
  let ?stripped = "meshobj\<lparr>Lines := [], Verts := [], CellData := [],
                PointScalars := None, PointTCoords := None, PointArrays := []\<rparr>"
  have s1: "s1 = ?sa\<lparr>Surface := Some ?L, polydatas := polydatas st0 @ [?stripped]\<rparr>"
    using i1 by (simp add: InitializeSurface_eq)
  obtain inp where inp: "Input st0 = Some inp"
    using i2 s1 by (cases "Input st0") (simp_all add: InitializeValues_None)
  with td have inp_ok: "inp < ?V" "length (Tuples (arrays st0 ! inp)) = NumberOfPoints meshobj"
    by (simp_all add: tuples_differ_Inr)
  have s2: "s2 = s1\<lparr>Values := Some ?V, arrays := arrays st0 @ [arrays st0 ! inp]\<rparr>"
    using i2 InitializeValues_eq[of s1 inp] inp inp_ok by (simp add: s1)
  have s3: "s3 = s2\<lparr>polydatas := polydatas st0 @ [?stripped\<lparr>PointTCoords := Some ?V, PointScalars := Mask st0\<rparr>]\<rparr>"
    using i3 SetPointData_eq[of s2 ?L] by (simp add: s2 s1)
  have s5: "s5 = s3" using i5 by (simp add: Remesh_def)
  let ?surf = "meshobj\<lparr>Lines := [], Verts := [], CellData := [],
                PointScalars := Mask st0, PointTCoords := Some ?V, PointArrays := [], Links := True\<rparr>"
  have s6: "s6 = s3\<lparr>polydatas := polydatas st0 @ [?surf]\<rparr>"
    using i6 BuildLinks_eq[of s5 ?L] by (simp add: s5 s3 s2 s1)
  have surf6: "the_surface s6 = Inr ?surf"
    using the_surface_eq[of s6 ?L] by (simp add: s6 s3 s2 s1)
  have "\<exists>f extra. s7 = s6\<lparr>Fixed := Some f, arrays := arrays st0 @ arrays st0 ! inp # extra\<rparr> \<and>
         ((Mask st0 = Some f \<and> extra = []) \<or>
          (Mask st0 = None \<and> f = Suc ?V \<and> BoundaryMask s6 = Inr (hd extra) \<and> extra = [hd extra]))"
  proof (cases "Mask st0")
    case None
    with InitializeMask_Inr[OF i7 surf6] obtain bm where "BoundaryMask s6 = Inr bm"
      and "s7 = s6\<lparr>Fixed := Some (length (arrays s6)), arrays := arrays s6 @ [bm]\<rparr>"
      by auto
    then have "s7 = s6\<lparr>Fixed := Some (Suc ?V), arrays := arrays st0 @ arrays st0 ! inp # [bm]\<rparr> \<and>
          (Mask st0 = None \<and> Suc ?V = Suc ?V \<and> BoundaryMask s6 = Inr (hd [bm]) \<and> [bm] = [hd [bm]])"
      using None by (simp add: s6 s3 s2 s1)
    then show ?thesis by blast
  next
    case (Some f)
    with InitializeMask_Inr[OF i7 surf6] have "s7 = s6\<lparr>Fixed := Some f\<rparr>" by simp
    then have "s7 = s6\<lparr>Fixed := Some f, arrays := arrays st0 @ arrays st0 ! inp # []\<rparr> \<and> Mask st0 = Some f"
      using Some by (simp add: s6 s3 s2 s1)
    then show ?thesis by blast
  qed
  then obtain f extra where s7: "s7 = s6\<lparr>Fixed := Some f, arrays := arrays st0 @ arrays st0 ! inp # extra\<rparr>"
    and alt: "(Mask st0 = Some f \<and> extra = []) \<or>
         (Mask st0 = None \<and> f = Suc ?V \<and> BoundaryMask s6 = Inr (hd extra) \<and> extra = [hd extra])"
    by blast
  have surf7: "the_surface s7 = Inr ?surf"
    using the_surface_eq[of s7 ?L] by (simp add: s7 s6 s3 s2 s1)
  let ?P = "NumberOfPoints (polydatas st0 ! m)"
  from InitializePartition_Inr[OF i8 surf7]
  have st: "st = s7\<lparr>FixedPoints := filter (fixed_in s7) [0..<?P],
                  FreePoints := filter (\<lambda>i. \<not> fixed_in s7 i) [0..<?P],
                  PointIndex := map (compact_index (fixed_in s7)) [0..<?P]\<rparr>"
    and rd: "\<forall>i<?P. \<exists>b. IsFixedPoint s7 i = Inr b"
    by (simp_all add: m)
  have same: "IsFixedPoint st = IsFixedPoint s7"
    by (rule IsFixedPoint_cong) (simp_all add: st)
  then have fx: "fixed_in s7 = fixed_in st"
    by (simp add: fixed_in_def fun_eq_iff)
  have bm: "BoundaryMask st = BoundaryMask s6"
    by (rule BoundaryMask_cong, rule the_surface_cong) (simp_all add: st s7)
  have all: "s7 = st0\<lparr>Surface := Some ?L, Fixed := Some f, Values := Some ?V, Output := None,
           polydatas := polydatas st0 @ [?surf],
           arrays := arrays st0 @ arrays st0 ! inp # extra\<rparr>"
    by (simp add: s7 s6 s3 s2 s1)
  show thesis
  proof (rule that[where m=m and inp=inp and f=f and extra=extra])
    show "FixedPoints st = filter (fixed_in st) [0..<?P]"
      unfolding fx[symmetric] by (subst st) simp
    show "FreePoints st = filter (\<lambda>i. \<not> fixed_in st i) [0..<?P]"
      unfolding fx[symmetric] by (subst st) simp
    show "PointIndex st = map (compact_index (fixed_in st)) [0..<?P]"
      unfolding fx[symmetric] by (subst st) simp
    show "Mesh st = Mesh st0" by (subst st) (simp add: all)
    show "Input st = Input st0" by (subst st) (simp add: all)
    show "Mask st = Mask st0" by (subst st) (simp add: all)
    show "Surface st = Some ?L" by (subst st) (simp add: all)
    show "Fixed st = Some f" by (subst st) (simp add: all)
    show "Values st = Some ?V" by (subst st) (simp add: all)
    show "Output st = None" by (subst st) (simp add: all)
    show "polydatas st = polydatas st0 @
             [(polydatas st0 ! m)\<lparr>Lines := [], Verts := [], CellData := [],
                PointScalars := Mask st0, PointTCoords := Some ?V,
                PointArrays := [], Links := True\<rparr>]"
      by (subst st) (simp add: all m)
    show "arrays st = arrays st0 @ arrays st0 ! inp # extra" by (subst st) (simp add: all)
    show "\<forall>i<?P. \<exists>b. IsFixedPoint st i = Inr b" using rd same by simp
    show "(Mask st0 = Some f \<and> extra = []) \<or>
         (Mask st0 = None \<and> f = Suc ?V \<and> BoundaryMask st = Inr (hd extra) \<and> extra = [hd extra])"
      using alt bm by simp
  qed (use m inp inp_ok in simp_all)
qed



lemma filter_upt_count_nth:
  "k < length (filter p [0..<n]) \<Longrightarrow> length (filter p [0..<filter p [0..<n] ! k]) = k"
proof (induction n)
  case 0
  then show ?case by simp
next
  case (Suc n)
  show ?case
  proof (cases "k < length (filter p [0..<n])")
    case True
    then show ?thesis using Suc.IH by (simp add: nth_append)
  next
    case False
    with Suc.prems have "p n" "k = length (filter p [0..<n])"
      by (auto split: if_splits)
    then show ?thesis by (simp add: nth_append)
  qed
qed

lemma filter_upt_nth_count:
  "i < n \<Longrightarrow> p i \<Longrightarrow>
   length (filter p [0..<i]) < length (filter p [0..<n]) \<and>
   filter p [0..<n] ! length (filter p [0..<i]) = i"
proof (induction n)
  case 0
  then show ?case by simp
next
  case (Suc n)
  show ?case
  proof (cases "i = n")
    case True
    then show ?thesis using Suc.prems by (simp add: nth_append)
  next
    case False
    with Suc.prems have "i < n" by simp
    from Suc.IH[OF this Suc.prems(2)] show ?thesis by (simp add: nth_append)
  qed
qed

lemma filter_upt_nth_holds:
  "k < length (filter p [0..<n]) \<Longrightarrow> p (filter p [0..<n] ! k) \<and> filter p [0..<n] ! k < n"
  using nth_mem[of k "filter p [0..<n]"] by simp

lemma length_filter_upt_split:
  "length (filter p [0..<n]) + length (filter (\<lambda>i. \<not> p i) [0..<n]) = n"
  using sum_length_filter_compl[of p "[0..<n]"] by simp

section \<open>The partition of the points (C1)\<close>

text \<open>Claim C1. After \<^verbatim>\<open>Initialize\<close> has returned on a mesh with \<open>P\<close> points: every
  point id below \<open>P\<close> is in exactly one of the fixed-point list and the free-point
  list, the lists have no repetitions and hold nothing else, and their lengths add up to
  \<open>P\<close>; the index list has \<open>P\<close> entries; the \<open>k\<close>-th fixed point has the signed compact
  index \<open>-(k+1)\<close> and the \<open>r\<close>-th free point has \<open>r\<close>; decoding the index is a
  bijection from the fixed points onto \<open>[0,F)\<close> and from the free points onto
  \<open>[0,N)\<close>; and decoding the index of any point and looking the result up in the list
  it selects gives the point back. The fixed points are those the mask marks.\<close>
theorem Initialize_partitions_points:
  assumes "Initialize junk st0 = Inr st" and "Mesh st0 = Some mesh"
    and "P = NumberOfPoints (polydatas st0 ! mesh)"
  shows "(\<forall>i<P. (i \<in> set (FixedPoints st)) \<noteq> (i \<in> set (FreePoints st)))
     \<and> set (FixedPoints st) \<union> set (FreePoints st) = {0..<P}
     \<and> set (FixedPoints st) \<inter> set (FreePoints st) = {}
     \<and> distinct (FixedPoints st) \<and> distinct (FreePoints st)
     \<and> length (FixedPoints st) + length (FreePoints st) = P
     \<and> length (PointIndex st) = P
     \<and> (\<forall>k<length (FixedPoints st). PointIndex st ! (FixedPoints st ! k) = - (int k + 1))
     \<and> (\<forall>r<length (FreePoints st). PointIndex st ! (FreePoints st ! r) = int r)
     \<and> bij_betw (\<lambda>i. nat (- PointIndex st ! i - 1)) (set (FixedPoints st)) {0..<length (FixedPoints st)}
     \<and> bij_betw (\<lambda>i. nat (PointIndex st ! i)) (set (FreePoints st)) {0..<length (FreePoints st)}
     \<and> (\<forall>i<P. if PointIndex st ! i < 0
                then nat (- PointIndex st ! i - 1) < length (FixedPoints st)
                   \<and> FixedPoints st ! nat (- PointIndex st ! i - 1) = i
                else nat (PointIndex st ! i) < length (FreePoints st)
                   \<and> FreePoints st ! nat (PointIndex st ! i) = i)
     \<and> (\<forall>i<P. (i \<in> set (FixedPoints st)) = (IsFixedPoint st i = Inr True))"
proof -
  define fx where "fx = fixed_in st"
  from Initialize_Inr[OF assms(1)] obtain m where "Mesh st0 = Some m"
    and f0: "FixedPoints st = filter (fixed_in st) [0..<NumberOfPoints (polydatas st0 ! m)]"
    and f1: "FreePoints st = filter (\<lambda>i. \<not> fixed_in st i) [0..<NumberOfPoints (polydatas st0 ! m)]"
    and f2: "PointIndex st = map (compact_index (fixed_in st)) [0..<NumberOfPoints (polydatas st0 ! m)]"
    and rd: "\<forall>i<NumberOfPoints (polydatas st0 ! m). \<exists>b. IsFixedPoint st i = Inr b"
    by metis
  with assms(2,3) have P: "P = NumberOfPoints (polydatas st0 ! m)" by simp
  have fixed: "FixedPoints st = filter fx [0..<P]"
    and free: "FreePoints st = filter (\<lambda>i. \<not> fx i) [0..<P]"
    and index: "PointIndex st = map (compact_index fx) [0..<P]"
    using f0 f1 f2 by (simp_all add: P fx_def)
  have A: "\<forall>i<P. (i \<in> set (FixedPoints st)) \<noteq> (i \<in> set (FreePoints st))"
    by (simp add: fixed free)
  have B: "set (FixedPoints st) \<union> set (FreePoints st) = {0..<P}"
    by (auto simp add: fixed free)
  have C: "set (FixedPoints st) \<inter> set (FreePoints st) = {}"
    by (auto simp add: fixed free)
  have D: "distinct (FixedPoints st) \<and> distinct (FreePoints st)"
    by (simp add: fixed free)
  have E: "length (FixedPoints st) + length (FreePoints st) = P"
    by (simp add: fixed free length_filter_upt_split)
  have F: "length (PointIndex st) = P" by (simp add: index)
  have G: "\<forall>k<length (FixedPoints st). PointIndex st ! (FixedPoints st ! k) = - (int k + 1)"
  proof (intro allI impI)
    fix k assume k: "k < length (FixedPoints st)"
    then have k': "k < length (filter fx [0..<P])" by (simp add: fixed)
    from filter_upt_nth_holds[OF k'] filter_upt_count_nth[OF k']
    show "PointIndex st ! (FixedPoints st ! k) = - (int k + 1)"
      by (simp add: index fixed compact_index_def)
  qed
  have H: "\<forall>r<length (FreePoints st). PointIndex st ! (FreePoints st ! r) = int r"
  proof (intro allI impI)
    fix r assume "r < length (FreePoints st)"
    then have r': "r < length (filter (\<lambda>i. \<not> fx i) [0..<P])" by (simp add: free)
    from filter_upt_nth_holds[OF r'] filter_upt_count_nth[OF r']
    show "PointIndex st ! (FreePoints st ! r) = int r"
      by (simp add: index free compact_index_def)
  qed
  have K: "\<forall>i<P. if PointIndex st ! i < 0
                then nat (- PointIndex st ! i - 1) < length (FixedPoints st)
                   \<and> FixedPoints st ! nat (- PointIndex st ! i - 1) = i
                else nat (PointIndex st ! i) < length (FreePoints st)
                   \<and> FreePoints st ! nat (PointIndex st ! i) = i"
  proof (intro allI impI)
    fix i assume i: "i < P"
    show "if PointIndex st ! i < 0
                then nat (- PointIndex st ! i - 1) < length (FixedPoints st)
                   \<and> FixedPoints st ! nat (- PointIndex st ! i - 1) = i
                else nat (PointIndex st ! i) < length (FreePoints st)
                   \<and> FreePoints st ! nat (PointIndex st ! i) = i"
    proof (cases "fx i")
      case True
      from filter_upt_nth_count[of i P fx, OF i True] True i show ?thesis
        by (simp add: index fixed compact_index_def)
    next
      case False
      from filter_upt_nth_count[of i P "\<lambda>i. \<not> fx i", OF i] False i show ?thesis
        by (simp add: index free compact_index_def)
    qed
  qed
  have I: "bij_betw (\<lambda>i. nat (- PointIndex st ! i - 1)) (set (FixedPoints st)) {0..<length (FixedPoints st)}"
  proof (rule bij_betw_byWitness[where f' = "\<lambda>k. FixedPoints st ! k"])
    show "\<forall>a\<in>set (FixedPoints st). FixedPoints st ! nat (- PointIndex st ! a - 1) = a"
      using K by (auto simp add: fixed index compact_index_def)
    show "\<forall>a'\<in>{0..<length (FixedPoints st)}. nat (- PointIndex st ! (FixedPoints st ! a') - 1) = a'"
      using G by simp
    show "(\<lambda>i. nat (- PointIndex st ! i - 1)) ` set (FixedPoints st) \<subseteq> {0..<length (FixedPoints st)}"
      using K by (auto simp add: fixed index compact_index_def)
    show "(\<lambda>k. FixedPoints st ! k) ` {0..<length (FixedPoints st)} \<subseteq> set (FixedPoints st)"
      by auto
  qed
  have J: "bij_betw (\<lambda>i. nat (PointIndex st ! i)) (set (FreePoints st)) {0..<length (FreePoints st)}"
  proof (rule bij_betw_byWitness[where f' = "\<lambda>k. FreePoints st ! k"])
    show "\<forall>a\<in>set (FreePoints st). FreePoints st ! nat (PointIndex st ! a) = a"
      using K by (auto simp add: free index compact_index_def)
    show "\<forall>a'\<in>{0..<length (FreePoints st)}. nat (PointIndex st ! (FreePoints st ! a')) = a'"
      using H by simp
    show "(\<lambda>i. nat (PointIndex st ! i)) ` set (FreePoints st) \<subseteq> {0..<length (FreePoints st)}"
      using K by (auto simp add: free index compact_index_def)
    show "(\<lambda>k. FreePoints st ! k) ` {0..<length (FreePoints st)} \<subseteq> set (FreePoints st)"
      by auto
  qed
  have M: "\<forall>i<P. (i \<in> set (FixedPoints st)) = (IsFixedPoint st i = Inr True)"
    by (simp add: fixed fx_def fixed_in_def)
  from A B C D E F G H I J K M show ?thesis by blast
qed


theorem Initialize_partitions_points_witness:
  "Initialize [7, 7] fan_state = Inr fan_initialized
   \<and> Mesh fan_state = Some 0
   \<and> NumberOfPoints (polydatas fan_state ! 0) = 5
   \<and> set (FixedPoints fan_initialized) \<union> set (FreePoints fan_initialized) = {0..<5}
   \<and> set (FixedPoints fan_initialized) \<inter> set (FreePoints fan_initialized) = {}
   \<and> length (FixedPoints fan_initialized) + length (FreePoints fan_initialized) = 5
   \<and> length (PointIndex fan_initialized) = 5
   \<and> PointIndex fan_initialized ! (FixedPoints fan_initialized ! 2) = - 3
   \<and> PointIndex fan_initialized ! (FreePoints fan_initialized ! 0) = 0
   \<and> FixedPoints fan_initialized ! nat (- PointIndex fan_initialized ! 3 - 1) = 3
   \<and> FreePoints fan_initialized ! nat (PointIndex fan_initialized ! 4) = 4"
proof -
  have run: "Initialize [7, 7] fan_state = Inr fan_initialized"
    by code_simp
  have mesh: "Mesh fan_state = Some 0"
    by (simp add: fan_state_def)
  have points: "5 = NumberOfPoints (polydatas fan_state ! 0)"
    by (simp add: fan_state_def fan_mesh_def)
  from Initialize_partitions_points[OF run mesh points] run mesh points
  show ?thesis
    by (simp add: fan_initialized_def)
qed

section \<open>Fatal configuration errors (C6) and running twice (C7)\<close>

text \<open>What \<^verbatim>\<open>Initialize\<close> does reject: a null mesh, a mesh without polygons, an input
  array whose tuple count is not the point count, a previously derived \<^verbatim>\<open>_Fixed\<close> array
  whose tuple count is not the point count, and a missing input array. Each ends the
  process with its diagnostic.\<close>

lemma Initialize_missing_mesh:
  "Mesh st = None \<Longrightarrow> Initialize junk st = Inl (Exit ''Initialize: Missing input surface mesh'')"
  by (simp add: Initialize_def CheckInput_def)

lemma Initialize_no_polys:
  "Mesh st = Some m \<Longrightarrow> m < length (polydatas st) \<Longrightarrow> Polys (polydatas st ! m) = [] \<Longrightarrow>
   Initialize junk st = Inl (Exit ''Initialize: Input point set must be a surface mesh'')"
  by (simp add: Initialize_def CheckInput_def get_polydata_def GetNumberOfPolys_def)

lemma Initialize_invalid_input:
  "Mesh st = Some m \<Longrightarrow> m < length (polydatas st) \<Longrightarrow> Polys (polydatas st ! m) \<noteq> [] \<Longrightarrow>
   Input st = Some inp \<Longrightarrow> inp < length (arrays st) \<Longrightarrow>
   GetNumberOfTuples (arrays st ! inp) \<noteq> NumberOfPoints (polydatas st ! m) \<Longrightarrow>
   Initialize junk st = Inl (Exit ''Initialize: Invalid input map values array'')"
  by (simp add: Initialize_def CheckInput_def get_polydata_def GetNumberOfPolys_def
      tuples_differ_def get_array_def)

lemma Initialize_invalid_Fixed:
  "Mesh st = Some m \<Longrightarrow> m < length (polydatas st) \<Longrightarrow> Polys (polydatas st ! m) \<noteq> [] \<Longrightarrow>
   tuples_differ (st\<lparr>Output := None\<rparr>) (Input st) (polydatas st ! m) = Inr False \<Longrightarrow>
   Fixed st = Some f \<Longrightarrow> f < length (arrays st) \<Longrightarrow>
   GetNumberOfTuples (arrays st ! f) \<noteq> NumberOfPoints (polydatas st ! m) \<Longrightarrow>
   Initialize junk st = Inl (Exit ''Initialize: Invalid input mask'')"
  by (simp add: Initialize_def CheckInput_def get_polydata_def GetNumberOfPolys_def
      tuples_differ_def get_array_def)

lemma Initialize_missing_input:
  assumes "CheckInput (st\<lparr>Output := None\<rparr>) = Inr meshobj" and "Input st = None"
  shows "Initialize junk st = Inl (Exit ''InitializeValues: Missing boundary conditions'')"
  using assms by (simp add: Initialize_def InitializeSurface_eq InitializeValues_None)

text \<open>Claim C6 says that an input mask whose tuple count differs from the number of mesh
  points is fatal as well. The check that prints \<^verbatim>\<open>Invalid input mask\<close> reads \<^verbatim>\<open>_Fixed\<close>,
  which is null on a mapper that has not run, and not the caller's \<^verbatim>\<open>_Mask\<close>. On the
  fan with five points and a mask of six tuples, \<^verbatim>\<open>Initialize\<close> returns, with the
  partition read from the first five tuples of the mask.\<close>

theorem oversized_mask_passes_Initialize:
  "Mask long_mask_state = Some 1
   \<and> Fixed long_mask_state = None
   \<and> GetNumberOfTuples (arrays long_mask_state ! 1) = 6
   \<and> NumberOfPoints (polydatas long_mask_state ! 0) = 5
   \<and> Initialize [] long_mask_state = Inr long_mask_initialized"
  by code_simp

text \<open>Claim C7 says that a second \<^verbatim>\<open>Run\<close> on the unmodified mapper gives the output of
  the first. \<^verbatim>\<open>Initialize\<close> does reset \<^verbatim>\<open>_Output\<close> and copies \<^verbatim>\<open>_Input\<close> afresh, but
  \<^verbatim>\<open>_Fixed\<close> survives the first run and is what the mask check of the second run reads.
  On the same input the first \<^verbatim>\<open>Run\<close> returns an output and the second one ends the
  process.\<close>

theorem second_Run_exits_on_oversized_mask:
  "Run [] unit_weight fan_edges diagonal_solver long_mask_state = Inr long_mask_after_run
   \<and> Output long_mask_after_run = Some \<lparr>map_Domain = Some 1, map_Values = Some 2\<rparr>
   \<and> Run [] unit_weight fan_edges diagonal_solver long_mask_after_run
       = Inl (Exit ''Initialize: Invalid input mask'')"
  by code_simp

section \<open>The boundary mask (C8)\<close>


lemma SetComponent_Inr:
  "SetComponent a i l v = Inr a' \<longleftrightarrow>
     i < length (Tuples a) \<and> l < length (Tuples a ! i) \<and>
     a' = a\<lparr>Tuples := (Tuples a)[i := (Tuples a ! i)[l := v]]\<rparr>"
  by (auto simp: SetComponent_def)

lemma mark_loop:
  assumes "for_each xs (\<lambda>a ptId. SetComponent a ptId 0 c) a0 = Inr a1"
    and "\<forall>t\<in>set (Tuples a0). length t = 1"
  shows "(\<forall>x\<in>set xs. x < length (Tuples a0)) \<and>
         a1 = a0\<lparr>Tuples := map (\<lambda>i. if i \<in> set xs then [c] else Tuples a0 ! i) [0..<length (Tuples a0)]\<rparr>"
  using assms
proof (induction xs arbitrary: a0)
  case Nil
  then show ?case by (simp add: map_nth)
next
  case (Cons x xs)
  let ?n = "length (Tuples a0)"
  from Cons.prems(1) obtain a where step: "SetComponent a0 x 0 c = Inr a"
    and rest: "for_each xs (\<lambda>a ptId. SetComponent a ptId 0 c) a = Inr a1"
    by (auto simp: then_do_eq_Inr)
  from step have x: "x < ?n" and a: "a = a0\<lparr>Tuples := (Tuples a0)[x := (Tuples a0 ! x)[0 := c]]\<rparr>"
    by (simp_all add: SetComponent_Inr)
  have one: "length (Tuples a0 ! x) = 1" using Cons.prems(2) x by simp
  then have cell: "(Tuples a0 ! x)[0 := c] = [c]"
    by (cases "Tuples a0 ! x") simp_all
  have ta: "Tuples a = (Tuples a0)[x := [c]]" by (simp add: a cell)
  have "\<forall>t\<in>set (Tuples a). length t = 1"
    using Cons.prems(2) by (auto simp: ta dest!: set_update_subset_insert[THEN subsetD])
  from Cons.IH[OF rest this]
  have xs: "\<forall>y\<in>set xs. y < ?n"
    and a1: "a1 = a\<lparr>Tuples := map (\<lambda>i. if i \<in> set xs then [c] else Tuples a ! i) [0..<?n]\<rparr>"
    by (simp_all add: ta)
  have "map (\<lambda>i. if i \<in> set xs then [c] else Tuples a ! i) [0..<?n]
      = map (\<lambda>i. if i \<in> set (x # xs) then [c] else Tuples a0 ! i) [0..<?n]"
    by (rule map_cong) (auto simp: ta nth_list_update)
  then have "a1 = a0\<lparr>Tuples := map (\<lambda>i. if i \<in> set (x # xs) then [c] else Tuples a0 ! i) [0..<?n]\<rparr>"
    by (simp add: a1 a)
  with x xs show ?case by simp
qed

lemma mark_loop_returns:
  assumes "\<forall>x\<in>set xs. x < length (Tuples a0)" and "\<forall>t\<in>set (Tuples a0). length t = 1"
  shows "\<exists>a1. for_each xs (\<lambda>a ptId. SetComponent a ptId 0 c) a0 = Inr a1"
  using assms
proof (induction xs arbitrary: a0)
  case Nil
  then show ?case by simp
next
  case (Cons x xs)
  let ?a = "a0\<lparr>Tuples := (Tuples a0)[x := (Tuples a0 ! x)[0 := c]]\<rparr>"
  have x: "x < length (Tuples a0)" using Cons.prems(1) by simp
  then have one: "length (Tuples a0 ! x) = 1" using Cons.prems(2) by simp
  then have step: "SetComponent a0 x 0 c = Inr ?a"
    using x by (simp add: SetComponent_def)
  have "\<forall>t\<in>set (Tuples ?a). length t = 1"
    using Cons.prems(2) one by (auto dest!: set_update_subset_insert[THEN subsetD])
  moreover have "\<forall>y\<in>set xs. y < length (Tuples ?a)" using Cons.prems(1) by simp
  ultimately obtain a1 where "for_each xs (\<lambda>a ptId. SetComponent a ptId 0 c) ?a = Inr a1"
    using Cons.IH by blast
  then show ?case by (simp add: step)
qed

lemma polygon_edges_points:
  "(a, b) \<in> set (polygon_edges p) \<Longrightarrow> a \<in> set p \<and> b \<in> set p"
proof -
  assume "(a, b) \<in> set (polygon_edges p)"
  then obtain u v where uv: "(u, v) \<in> set (zip p (rotate1 p))" and "a = min u v" "b = max u v"
    by (auto simp: polygon_edges_def)
  from uv have "u \<in> set p" "v \<in> set p"
    by (auto dest: set_zip_leftD set_zip_rightD)
  then show ?thesis using \<open>a = min u v\<close> \<open>b = max u v\<close>
    by (auto simp: min_def max_def)
qed

lemma BoundaryPoints_iff:
  "i \<in> set (BoundaryPoints pd) \<longleftrightarrow> (\<exists>e\<in>set (BoundaryEdges pd). i = fst e \<or> i = snd e)"
  by (force simp: BoundaryPoints_def)

lemma BoundaryEdges_iff:
  "e \<in> set (BoundaryEdges pd) \<longleftrightarrow>
     (\<exists>p\<in>set (Polys pd). e \<in> set (polygon_edges p)) \<and> edge_uses (Polys pd) e = 1"
  by (auto simp: BoundaryEdges_def)

lemma BoundaryPoints_in_range:
  assumes "\<forall>p\<in>set (Polys pd). \<forall>v\<in>set p. v < n"
  shows "\<forall>x\<in>set (BoundaryPoints pd). x < n"
proof
  fix x assume "x \<in> set (BoundaryPoints pd)"
  then obtain a b where e: "(a, b) \<in> set (BoundaryEdges pd)" and x: "x = a \<or> x = b"
    by (auto simp: BoundaryPoints_iff)
  then obtain p where "p \<in> set (Polys pd)" "(a, b) \<in> set (polygon_edges p)"
    by (auto simp: BoundaryEdges_iff)
  with polygon_edges_points[of a b p] assms x show "x < n" by auto
qed

lemma BoundaryMask_Inr:
  assumes "BoundaryMask st = Inr bm" and "the_surface st = Inr surface"
  shows "bm = \<lparr>Name = ''FixedPoints'', NumberOfComponents = 1,
           Tuples = map (\<lambda>i. if i \<in> set (BoundaryPoints surface) then [1] else [0])
                      [0..<NumberOfPoints surface]\<rparr>"
proof -
  let ?a0 = "\<lparr>Name = ''FixedPoints'', NumberOfComponents = 1,
          Tuples = replicate (NumberOfPoints surface) [0::'a]\<rparr>"
  from assms have "for_each (BoundaryPoints surface) (\<lambda>a ptId. SetComponent a ptId 0 1) ?a0 = Inr bm"
    by (simp add: BoundaryMask_def)
  from mark_loop[OF this] have "bm = ?a0\<lparr>Tuples := map (\<lambda>i. if i \<in> set (BoundaryPoints surface) then [1] else Tuples ?a0 ! i) [0..<length (Tuples ?a0)]\<rparr>"
    by simp
  moreover have "map (\<lambda>i. if i \<in> set (BoundaryPoints surface) then [1] else Tuples ?a0 ! i) [0..<length (Tuples ?a0)]
     = map (\<lambda>i. if i \<in> set (BoundaryPoints surface) then [1] else [0]) [0..<NumberOfPoints surface]"
    by (rule map_cong) simp_all
  ultimately show ?thesis by simp
qed

lemma BoundaryMask_returns:
  assumes "the_surface st = Inr surface"
    and "\<forall>p\<in>set (Polys surface). \<forall>v\<in>set p. v < NumberOfPoints surface"
  shows "\<exists>bm. BoundaryMask st = Inr bm"
proof -
  let ?a0 = "\<lparr>Name = ''FixedPoints'', NumberOfComponents = 1,
          Tuples = replicate (NumberOfPoints surface) [0::'a]\<rparr>"
  have "\<exists>a1. for_each (BoundaryPoints surface) (\<lambda>a ptId. SetComponent a ptId 0 1) ?a0 = Inr a1"
    by (rule mark_loop_returns) (use BoundaryPoints_in_range[OF assms(2)] in simp_all)
  then show ?thesis using assms(1) by (simp add: BoundaryMask_def)
qed



lemma BoundaryEdges_cong: "Polys pd' = Polys pd \<Longrightarrow> BoundaryEdges pd' = BoundaryEdges pd"
  by (simp add: BoundaryEdges_def)

text \<open>Claim C8. \<^verbatim>\<open>BoundaryMask\<close>, when it returns, returns an array with one component
  and one tuple per surface point, holding \<open>1\<close> at every point incident to a boundary
  edge and \<open>0\<close> at every other point; it does return when the polygons of the surface
  name points of the surface only. When the caller supplies no mask, \<^verbatim>\<open>Initialize\<close>
  stores this array as the Fixed Mask, and the fixed points are exactly the points of the
  mesh that are incident to a boundary edge.\<close>

theorem BoundaryMask_is_default_mask:
  fixes st st0 st1 :: "'s::zero_neq_one state"
  shows
   "(the_surface st = Inr surface \<longrightarrow> BoundaryMask st = Inr bm \<longrightarrow>
       NumberOfComponents bm = 1 \<and> length (Tuples bm) = NumberOfPoints surface \<and>
       (\<forall>i<NumberOfPoints surface. Tuples bm ! i =
          [if \<exists>e\<in>set (BoundaryEdges surface). i = fst e \<or> i = snd e then 1 else 0]))
    \<and> (the_surface st = Inr surface \<longrightarrow>
         (\<forall>p\<in>set (Polys surface). \<forall>v\<in>set p. v < NumberOfPoints surface) \<longrightarrow>
         (\<exists>bm. BoundaryMask st = Inr bm))
    \<and> (Initialize junk st0 = Inr st1 \<longrightarrow> Mask st0 = None \<longrightarrow> Mesh st0 = Some m \<longrightarrow>
         (\<exists>f. Fixed st1 = Some f \<and> f < length (arrays st1)
            \<and> BoundaryMask st1 = Inr (arrays st1 ! f)
            \<and> set (FixedPoints st1) =
                {i. i < NumberOfPoints (polydatas st0 ! m) \<and>
                    (\<exists>e\<in>set (BoundaryEdges (polydatas st0 ! m)). i = fst e \<or> i = snd e)}))"
proof (intro conjI impI)
  assume s: "the_surface st = Inr surface" and b: "BoundaryMask st = Inr bm"
  from BoundaryMask_Inr[OF b s]
  show "NumberOfComponents bm = 1" and "length (Tuples bm) = NumberOfPoints surface"
    and "\<forall>i<NumberOfPoints surface. Tuples bm ! i =
          [if \<exists>e\<in>set (BoundaryEdges surface). i = fst e \<or> i = snd e then 1 else 0]"
    by (simp_all add: BoundaryPoints_iff)
next
  assume "the_surface st = Inr surface"
    and "\<forall>p\<in>set (Polys surface). \<forall>v\<in>set p. v < NumberOfPoints surface"
  then show "\<exists>bm. BoundaryMask st = Inr bm" by (rule BoundaryMask_returns)
next
  assume init: "Initialize junk st0 = Inr st1" and nomask: "Mask st0 = None" and m: "Mesh st0 = Some m"
  let ?P = "NumberOfPoints (polydatas st0 ! m)"
  let ?surf = "(polydatas st0 ! m)\<lparr>Lines := [], Verts := [], CellData := [],
                PointScalars := Mask st0, PointTCoords := Some (length (arrays st0)),
                PointArrays := [], Links := True\<rparr>"
  have "\<exists>inp bm. Fixed st1 = Some (Suc (length (arrays st0)))
      \<and> arrays st1 = arrays st0 @ [arrays st0 ! inp, bm]
      \<and> BoundaryMask st1 = Inr bm
      \<and> Surface st1 = Some (length (polydatas st0))
      \<and> polydatas st1 = polydatas st0 @ [?surf]
      \<and> FixedPoints st1 = filter (fixed_in st1) [0..<?P]"
  proof (rule Initialize_Inr[OF init], goal_cases)
    case (1 m' inp f extra)
    note facts = 1
    have mm: "m' = m" using facts(1) m by simp
    from facts(20) nomask have f: "f = Suc (length (arrays st0))"
      and ex: "extra = [hd extra]" and b: "BoundaryMask st1 = Inr (hd extra)"
      by simp_all
    have "arrays st1 = arrays st0 @ [arrays st0 ! inp, hd extra]"
      using facts(18) ex by simp
    with f b facts(10,11,14,17) show ?case
      unfolding mm by blast
  qed
  then obtain inp bm where
    fixed: "Fixed st1 = Some (Suc (length (arrays st0)))"
    and arr: "arrays st1 = arrays st0 @ [arrays st0 ! inp, bm]"
    and bm: "BoundaryMask st1 = Inr bm"
    and surf: "Surface st1 = Some (length (polydatas st0))"
    and pd: "polydatas st1 = polydatas st0 @ [?surf]"
    and fp: "FixedPoints st1 = filter (fixed_in st1) [0..<?P]"
    by blast
  let ?f = "Suc (length (arrays st0))"
  have at: "arrays st1 ! ?f = bm" by (simp add: arr nth_append)
  have s1: "the_surface st1 = Inr ?surf"
    using the_surface_eq[of st1 "length (polydatas st0)"] by (simp add: surf pd)
  from BoundaryMask_Inr[OF bm s1]
  have tb: "Tuples bm = map (\<lambda>i. if i \<in> set (BoundaryPoints ?surf) then [1] else [0]) [0..<?P]"
    by simp
  have be: "BoundaryEdges ?surf = BoundaryEdges (polydatas st0 ! m)"
    by (rule BoundaryEdges_cong) simp
  have fx: "fixed_in st1 i \<longleftrightarrow> (\<exists>e\<in>set (BoundaryEdges (polydatas st0 ! m)). i = fst e \<or> i = snd e)"
    if "i < ?P" for i
    using that
    by (simp add: fixed_in_def IsFixedPoint_def fixed get_array_def arr GetComponent_def nth_append tb
        BoundaryPoints_iff be)
  have "set (FixedPoints st1) =
                {i. i < ?P \<and> (\<exists>e\<in>set (BoundaryEdges (polydatas st0 ! m)). i = fst e \<or> i = snd e)}"
    unfolding fp using fx by auto
  then show "\<exists>f. Fixed st1 = Some f \<and> f < length (arrays st1)
            \<and> BoundaryMask st1 = Inr (arrays st1 ! f)
            \<and> set (FixedPoints st1) =
                {i. i < ?P \<and> (\<exists>e\<in>set (BoundaryEdges (polydatas st0 ! m)). i = fst e \<or> i = snd e)}"
    using fixed at bm by (simp add: arr)
qed

theorem BoundaryMask_is_default_mask_witness:
  "the_surface fan_initialized = Inr (fan_surface None 1)
   \<and> set (concat (Polys (fan_surface None 1))) \<subseteq> {0..<NumberOfPoints (fan_surface None 1)}
   \<and> BoundaryEdges (fan_surface None 1) = [(0, 1), (1, 2), (2, 3), (0, 3)]
   \<and> BoundaryMask fan_initialized = Inr (arrays fan_initialized ! 2)
   \<and> Tuples (arrays fan_initialized ! 2) ! 0 = [1]
   \<and> Tuples (arrays fan_initialized ! 2) ! 4 = [0]
   \<and> Initialize [] fan_state = Inr fan_initialized
   \<and> Mask fan_state = None \<and> Mesh fan_state = Some 0
   \<and> Fixed fan_initialized = Some 2
   \<and> set (FixedPoints fan_initialized) = {0, 1, 2, 3}"
proof -
  have s: "the_surface fan_initialized = Inr (fan_surface None 1)" by code_simp
  have b: "BoundaryMask fan_initialized = Inr (arrays fan_initialized ! 2)" by code_simp
  have e: "BoundaryEdges (fan_surface None 1) = [(0, 1), (1, 2), (2, 3), (0, 3)]" by code_simp
  have r: "\<forall>p\<in>set (Polys (fan_surface None 1)). \<forall>v\<in>set p. v < NumberOfPoints (fan_surface None 1)"
    by (simp add: fan_surface_def)
  have i: "Initialize [] fan_state = Inr fan_initialized" by code_simp
  have k: "Mask fan_state = None" "Mesh fan_state = Some 0" by (simp_all add: fan_state_def)
  note inst = BoundaryMask_is_default_mask[where st = fan_initialized and surface = "fan_surface None 1"
      and bm = "arrays fan_initialized ! 2" and junk = "[]"
      and ?st0.0 = fan_state and ?st1.0 = fan_initialized and m = 0]
  from inst s b r i k have "Tuples (arrays fan_initialized ! 2) ! 0 = [1]"
    and "Tuples (arrays fan_initialized ! 2) ! 4 = [0]"
    and "Fixed fan_initialized = Some 2"
    and "set (FixedPoints fan_initialized) = {0, 1, 2, 3}"
    by (simp_all add: fan_initialized_def)
  with s b e r i k show ?thesis by (simp add: fan_surface_def)
qed


section \<open>The edge loop of Solve\<close>



lemma for_each_induct:
  assumes run: "for_each xs body s0 = Inr s'" and base: "Q [] s0"
    and step: "\<And>ys x zs s s1. xs = ys @ x # zs \<Longrightarrow> Q ys s \<Longrightarrow> body s x = Inr s1 \<Longrightarrow> Q (ys @ [x]) s1"
  shows "Q xs s'"
proof -
  have "xs = ys @ zs \<Longrightarrow> Q ys s \<Longrightarrow> for_each zs body s = Inr s' \<Longrightarrow> Q xs s'" for ys zs s
  proof (induction zs arbitrary: ys s)
    case Nil
    then show ?case by simp
  next
    case (Cons z zs)
    from Cons.prems(3) obtain s1 where b: "body s z = Inr s1" and r: "for_each zs body s1 = Inr s'"
      by (auto simp: then_do_eq_Inr)
    have "Q (ys @ [z]) s1" using step[OF Cons.prems(1) Cons.prems(2) b] .
    moreover have "xs = (ys @ [z]) @ zs" using Cons.prems(1) by simp
    ultimately show ?case using Cons.IH r by blast
  qed
  from this[of "[]" xs s0] run base show ?thesis by simp
qed

lemma FreePointIndex_Inr:
  "FreePointIndex st i = Inr r \<longleftrightarrow> i < length (PointIndex st) \<and> r = PointIndex st ! i"
  by (auto simp: FreePointIndex_def)

lemma add_to_diag_Inr:
  "add_to_diag r x sys = Inr sys' \<longleftrightarrow>
     r < length (diag sys) \<and> sys' = sys\<lparr>diag := (diag sys)[r := diag sys ! r + x]\<rparr>"
  by (auto simp: add_to_diag_def)

lemma add_to_rhs_Inr:
  "add_to_rhs r l x sys = Inr sys' \<longleftrightarrow>
     r < length (rhs sys) \<and> l < length (rhs sys ! r) \<and>
     sys' = sys\<lparr>rhs := (rhs sys)[r := (rhs sys ! r)[l := rhs sys ! r ! l + x]]\<rparr>"
  by (auto simp: add_to_rhs_def)

lemma fold_into_rhs_Inr:
  assumes "fold_into_rhs st m w r j sys = Inr sys'"
  shows "triplets sys' = triplets sys \<and> diag sys' = diag sys \<and> weight_calls sys' = weight_calls sys
     \<and> length (rhs sys') = length (rhs sys)
     \<and> (\<forall>k. k \<noteq> nat r \<longrightarrow> rhs sys' ! k = rhs sys ! k)
     \<and> length (rhs sys' ! nat r) = length (rhs sys ! nat r)
     \<and> (\<forall>l<m. \<exists>v. GetValue st j l = Inr v \<and> rhs sys' ! nat r ! l = rhs sys ! nat r ! l + w * v)
     \<and> (\<forall>l. m \<le> l \<longrightarrow> rhs sys' ! nat r ! l = rhs sys ! nat r ! l)"
proof -
  let ?R = "nat r"
  let ?Q = "\<lambda>ys s. triplets s = triplets sys \<and> diag s = diag sys \<and> weight_calls s = weight_calls sys
     \<and> length (rhs s) = length (rhs sys)
     \<and> (\<forall>k. k \<noteq> ?R \<longrightarrow> rhs s ! k = rhs sys ! k)
     \<and> length (rhs s ! ?R) = length (rhs sys ! ?R)
     \<and> (\<forall>l\<in>set ys. \<exists>v. GetValue st j l = Inr v \<and> rhs s ! ?R ! l = rhs sys ! ?R ! l + w * v)
     \<and> (\<forall>l. l \<notin> set ys \<longrightarrow> rhs s ! ?R ! l = rhs sys ! ?R ! l)"
  have run: "for_each [0..<m]
       (\<lambda>sys l. then_do (GetValue st j l) (\<lambda>v. add_to_rhs ?R l (w * v) sys)) sys = Inr sys'"
    using assms by (simp add: fold_into_rhs_def)
  have "?Q [0..<m] sys'"
  proof (rule for_each_induct[OF run, where Q = ?Q], goal_cases)
    case 1
    show ?case by simp
  next
    case (2 ys x zs s s1)
    from 2(1) have "distinct (ys @ x # zs)" by (metis distinct_upt)
    then have xn: "x \<notin> set ys" by simp
    from 2(3) obtain v where v: "GetValue st j x = Inr v"
      and a: "add_to_rhs ?R x (w * v) s = Inr s1"
      by (auto simp: then_do_eq_Inr)
    from a have R: "?R < length (rhs s)" and x: "x < length (rhs s ! ?R)"
      and s1: "s1 = s\<lparr>rhs := (rhs s)[?R := (rhs s ! ?R)[x := rhs s ! ?R ! x + w * v]]\<rparr>"
      by (simp_all add: add_to_rhs_Inr)
    have row: "rhs s1 ! ?R = (rhs s ! ?R)[x := rhs s ! ?R ! x + w * v]"
      using R by (simp add: s1)
    have other: "\<And>k. k \<noteq> ?R \<Longrightarrow> rhs s1 ! k = rhs s ! k"
      by (simp add: s1)
    have old: "rhs s ! ?R ! x = rhs sys ! ?R ! x" using 2(2) xn by simp
    have "\<forall>l\<in>set (ys @ [x]). \<exists>v. GetValue st j l = Inr v \<and> rhs s1 ! ?R ! l = rhs sys ! ?R ! l + w * v"
    proof
      fix l assume "l \<in> set (ys @ [x])"
      then consider "l = x" | "l \<in> set ys" "l \<noteq> x" using xn by auto
      then show "\<exists>v. GetValue st j l = Inr v \<and> rhs s1 ! ?R ! l = rhs sys ! ?R ! l + w * v"
      proof cases
        case 1
        then show ?thesis using v x old by (simp add: row)
      next
        case 2
        then show ?thesis using 2(2) \<open>?Q ys s\<close> by (simp add: row)
      qed
    qed
    moreover have "\<forall>l. l \<notin> set (ys @ [x]) \<longrightarrow> rhs s1 ! ?R ! l = rhs sys ! ?R ! l"
      using 2(2) by (simp add: row)
    moreover have "triplets s1 = triplets sys \<and> diag s1 = diag sys \<and> weight_calls s1 = weight_calls sys
       \<and> length (rhs s1) = length (rhs sys) \<and> length (rhs s1 ! ?R) = length (rhs sys ! ?R)"
      using 2(2) R by (simp add: s1)
    moreover have "\<forall>k. k \<noteq> ?R \<longrightarrow> rhs s1 ! k = rhs sys ! k"
      using 2(2) other by simp
    ultimately show ?case by blast
  qed
  then show ?thesis by simp
qed




lemma edge_step_both_fixed:
  assumes "FreePointIndex st i = Inr r" and "FreePointIndex st j = Inr c" and "r < 0" and "c < 0"
  shows "edge_step W st m sys (i, j) = Inr sys"
  using assms by (simp add: edge_step_def)

lemma edge_step_both_free:
  assumes "FreePointIndex st i = Inr r" and "FreePointIndex st j = Inr c" and "0 \<le> r" and "0 \<le> c"
  shows "edge_step W st m sys (i, j) =
     then_do (add_to_diag (nat r) (W i j)
        (sys\<lparr>weight_calls := weight_calls sys @ [(i, j)],
              triplets := triplets sys @ [(r, c, - W i j), (c, r, - W i j)]\<rparr>))
       (add_to_diag (nat c) (W i j))"
  using assms by (simp add: edge_step_def Let_def)

lemma edge_step_first_free:
  assumes "FreePointIndex st i = Inr r" and "FreePointIndex st j = Inr c" and "0 \<le> r" and "c < 0"
  shows "edge_step W st m sys (i, j) =
     then_do (fold_into_rhs st m (W i j) r j (sys\<lparr>weight_calls := weight_calls sys @ [(i, j)]\<rparr>))
       (add_to_diag (nat r) (W i j))"
  using assms by (simp add: edge_step_def Let_def)

lemma edge_step_second_free:
  assumes "FreePointIndex st i = Inr r" and "FreePointIndex st j = Inr c" and "r < 0" and "0 \<le> c"
  shows "edge_step W st m sys (i, j) =
     then_do (fold_into_rhs st m (W i j) c i (sys\<lparr>weight_calls := weight_calls sys @ [(i, j)]\<rparr>))
       (add_to_diag (nat c) (W i j))"
  using assms by (simp add: edge_step_def Let_def)

lemma edge_step_indices:
  assumes "edge_step W st m sys (i, j) = Inr sys'"
  shows "FreePointIndex st i = Inr (PointIndex st ! i) \<and> FreePointIndex st j = Inr (PointIndex st ! j)
         \<and> i < length (PointIndex st) \<and> j < length (PointIndex st)"
  using assms by (auto simp: edge_step_def then_do_eq_Inr FreePointIndex_Inr)

lemma edge_step_effect:
  assumes step: "edge_step W st m sys (i, j) = Inr sys'"
  shows "triplets sys' = triplets sys @ edge_entries W (PointIndex st) (i, j)"
    and "weight_calls sys' = weight_calls sys @
           (if 0 \<le> PointIndex st ! i \<or> 0 \<le> PointIndex st ! j then [(i, j)] else [])"
    and "diag sys' = add_at (PointIndex st ! j) (W i j) (add_at (PointIndex st ! i) (W i j) (diag sys))"
    and "length (rhs sys') = length (rhs sys)"
proof -
  let ?r = "PointIndex st ! i" and ?c = "PointIndex st ! j"
  let ?sys1 = "sys\<lparr>weight_calls := weight_calls sys @ [(i, j)]\<rparr>"
  from edge_step_indices[OF step] have ri: "FreePointIndex st i = Inr ?r"
    and ci: "FreePointIndex st j = Inr ?c" by simp_all
  have "triplets sys' = triplets sys @ edge_entries W (PointIndex st) (i, j)
      \<and> weight_calls sys' = weight_calls sys @ (if 0 \<le> ?r \<or> 0 \<le> ?c then [(i, j)] else [])
      \<and> diag sys' = add_at ?c (W i j) (add_at ?r (W i j) (diag sys))
      \<and> length (rhs sys') = length (rhs sys)"
  proof (cases "0 \<le> ?r"; cases "0 \<le> ?c")
    assume r: "0 \<le> ?r" and c: "0 \<le> ?c"
    from step show ?thesis
      unfolding edge_step_both_free[OF ri ci r c] then_do_eq_Inr add_to_diag_Inr
      using r c by (auto simp: edge_entries_def add_at_def)
  next
    assume r: "0 \<le> ?r" and c: "\<not> 0 \<le> ?c"
    then have c': "?c < 0" by simp
    from step obtain s1 where f: "fold_into_rhs st m (W i j) ?r j ?sys1 = Inr s1"
      and d: "add_to_diag (nat ?r) (W i j) s1 = Inr sys'"
      unfolding edge_step_first_free[OF ri ci r c'] then_do_eq_Inr by blast
    from fold_into_rhs_Inr[OF f] d show ?thesis
      using r c by (auto simp: add_to_diag_Inr edge_entries_def add_at_def)
  next
    assume r: "\<not> 0 \<le> ?r" and c: "0 \<le> ?c"
    then have r': "?r < 0" by simp
    from step obtain s1 where f: "fold_into_rhs st m (W i j) ?c i ?sys1 = Inr s1"
      and d: "add_to_diag (nat ?c) (W i j) s1 = Inr sys'"
      unfolding edge_step_second_free[OF ri ci r' c] then_do_eq_Inr by blast
    from fold_into_rhs_Inr[OF f] d show ?thesis
      using r c by (auto simp: add_to_diag_Inr edge_entries_def add_at_def)
  next
    assume r: "\<not> 0 \<le> ?r" and c: "\<not> 0 \<le> ?c"
    then have "?r < 0" "?c < 0" by simp_all
    from step edge_step_both_fixed[OF ri ci this] have "sys' = sys" by simp
    then show ?thesis using r c by (simp add: edge_entries_def add_at_def)
  qed
  then show "triplets sys' = triplets sys @ edge_entries W (PointIndex st) (i, j)"
    and "weight_calls sys' = weight_calls sys @
           (if 0 \<le> PointIndex st ! i \<or> 0 \<le> PointIndex st ! j then [(i, j)] else [])"
    and "diag sys' = add_at (PointIndex st ! j) (W i j) (add_at (PointIndex st ! i) (W i j) (diag sys))"
    and "length (rhs sys') = length (rhs sys)"
    by simp_all
qed

lemma length_add_at [simp]: "length (add_at r x d) = length d"
  by (simp add: add_at_def)

lemma edge_loop_effect:
  assumes run: "for_each edges (edge_step W st m) sys0 = Inr sys"
  shows "triplets sys = triplets sys0 @ concat (map (edge_entries W (PointIndex st)) edges)"
    and "weight_calls sys = weight_calls sys0 @
           filter (\<lambda>(i, j). 0 \<le> PointIndex st ! i \<or> 0 \<le> PointIndex st ! j) edges"
    and "length (diag sys) = length (diag sys0)"
    and "length (rhs sys) = length (rhs sys0)"
    and "\<forall>(i, j)\<in>set edges. i < length (PointIndex st) \<and> j < length (PointIndex st)"
proof -
  let ?Q = "\<lambda>ys s. triplets s = triplets sys0 @ concat (map (edge_entries W (PointIndex st)) ys)
      \<and> weight_calls s = weight_calls sys0 @
           filter (\<lambda>(i, j). 0 \<le> PointIndex st ! i \<or> 0 \<le> PointIndex st ! j) ys
      \<and> length (diag s) = length (diag sys0)
      \<and> length (rhs s) = length (rhs sys0)
      \<and> (\<forall>(i, j)\<in>set ys. i < length (PointIndex st) \<and> j < length (PointIndex st))"
  have "?Q edges sys"
  proof (rule for_each_induct[OF run, where Q = ?Q], goal_cases)
    case 1
    show ?case by simp
  next
    case (2 ys x zs s s1)
    obtain i j where x: "x = (i, j)" by (cases x)
    from 2(3) have step: "edge_step W st m s (i, j) = Inr s1" by (simp add: x)
    from edge_step_effect[OF step] edge_step_indices[OF step] 2(2)
    show ?case by (simp add: x)
  qed
  then show "triplets sys = triplets sys0 @ concat (map (edge_entries W (PointIndex st)) edges)"
    and "weight_calls sys = weight_calls sys0 @
           filter (\<lambda>(i, j). 0 \<le> PointIndex st ! i \<or> 0 \<le> PointIndex st ! j) edges"
    and "length (diag sys) = length (diag sys0)"
    and "length (rhs sys) = length (rhs sys0)"
    and "\<forall>(i, j)\<in>set edges. i < length (PointIndex st) \<and> j < length (PointIndex st)"
    by simp_all
qed

lemma AssembleSystem_Inr:
  assumes "AssembleSystem W edges st n m = Inr sys"
  obtains sys1 where
    "for_each edges (edge_step W st m)
       \<lparr>triplets = [], rhs = replicate n (replicate m 0), diag = replicate n 0, weight_calls = []\<rparr>
     = Inr sys1"
    and "sys = sys1\<lparr>triplets := triplets sys1 @ map (\<lambda>r. (int r, int r, diag sys1 ! r)) [0..<n]\<rparr>"
  using assms unfolding AssembleSystem_def then_do_eq_Inr by auto

section \<open>Skipped edges (C4)\<close>










section \<open>Symmetry of the matrix (C2)\<close>





lemma foldl_plus_sum_list:
  fixes a :: "'a::monoid_add"
  shows "foldl (+) a xs = a + sum_list xs"
  by (induction xs arbitrary: a) (simp_all add: add.assoc)

lemma pair_symmetric:
  "map (\<lambda>(r', c', v). v) (filter (\<lambda>(r', c', v). r' = r \<and> c' = c) [(a, b, x), (b, a, x)])
   = map (\<lambda>(r', c', v). v) (filter (\<lambda>(r', c', v). r' = c \<and> c' = r) [(a, b, x), (b, a, x)])"
  by (cases "a = r"; cases "b = c"; cases "a = c"; cases "b = r") simp_all

lemma entries_symmetric:
  "map (\<lambda>(r', c', v). v) (filter (\<lambda>(r', c', v). r' = r \<and> c' = c) (edge_entries W idx e))
   = map (\<lambda>(r', c', v). v) (filter (\<lambda>(r', c', v). r' = c \<and> c' = r) (edge_entries W idx e))"
proof (cases e)
  case (Pair i j)
  show ?thesis
  proof (cases "0 \<le> idx ! i \<and> 0 \<le> idx ! j")
    case True
    then have "edge_entries W idx e = [(idx ! i, idx ! j, - W i j), (idx ! j, idx ! i, - W i j)]"
      by (simp add: edge_entries_def Pair)
    then show ?thesis by (simp only: pair_symmetric)
  next
    case False
    then have "edge_entries W idx e = []" by (simp add: edge_entries_def Pair)
    then show ?thesis by simp
  qed
qed

lemma all_entries_symmetric:
  "map (\<lambda>(r', c', v). v) (filter (\<lambda>(r', c', v). r' = r \<and> c' = c) (concat (map (edge_entries W idx) es)))
   = map (\<lambda>(r', c', v). v) (filter (\<lambda>(r', c', v). r' = c \<and> c' = r) (concat (map (edge_entries W idx) es)))"
proof (induction es)
  case Nil
  show ?case by simp
next
  case (Cons e es)
  show ?case
    by (simp only: list.map concat.simps filter_append map_append Cons.IH
        entries_symmetric[of r c])
qed

lemma diagonal_entries_symmetric:
  "filter (\<lambda>(r', c', v). r' = r \<and> c' = c) (map (\<lambda>k. (int k, int k, d k)) ks)
   = filter (\<lambda>(r', c', v). r' = c \<and> c' = r) (map (\<lambda>k. (int k, int k, d k)) ks)"
  by (induction ks) auto

text \<open>Claim C2. The matrix that \<^verbatim>\<open>Solve\<close> assembles is symmetric: its entries at
  \<open>(r, c)\<close> and at \<open>(c, r)\<close> are equal for all \<open>r\<close> and \<open>c\<close>; and for every edge
  \<open>(i, j)\<close> between two free points with compact indices \<open>r\<close> and \<open>c\<close> the triplets
  \<open>(r, c, - Weight i j)\<close> and \<open>(c, r, - Weight i j)\<close> are both in the list the matrix is
  built from. No property of the scalars' arithmetic is used.\<close>

theorem assembled_matrix_is_symmetric:
  assumes "AssembleSystem Weight edges st n m = Inr sys"
  shows "setFromTriplets (triplets sys) r c = setFromTriplets (triplets sys) c r
     \<and> ((i, j) \<in> set edges \<longrightarrow> 0 \<le> PointIndex st ! i \<longrightarrow> 0 \<le> PointIndex st ! j \<longrightarrow>
          (PointIndex st ! i, PointIndex st ! j, - Weight i j) \<in> set (triplets sys)
          \<and> (PointIndex st ! j, PointIndex st ! i, - Weight i j) \<in> set (triplets sys))"
proof -
  from assms obtain sys1 where run: "for_each edges (edge_step Weight st m)
       \<lparr>triplets = [], rhs = replicate n (replicate m 0), diag = replicate n 0, weight_calls = []\<rparr>
     = Inr sys1"
    and a: "sys = sys1\<lparr>triplets := triplets sys1 @ map (\<lambda>r. (int r, int r, diag sys1 ! r)) [0..<n]\<rparr>"
    by (rule AssembleSystem_Inr)
  have t: "triplets sys = concat (map (edge_entries Weight (PointIndex st)) edges)
      @ map (\<lambda>r. (int r, int r, diag sys1 ! r)) [0..<n]"
    using edge_loop_effect(1)[OF run] by (simp add: a)
  have "setFromTriplets (triplets sys) r c = setFromTriplets (triplets sys) c r"
    unfolding setFromTriplets_def t filter_append map_append
    by (simp only: all_entries_symmetric[of r c] diagonal_entries_symmetric[of r c])
  moreover have "(PointIndex st ! i, PointIndex st ! j, - Weight i j) \<in> set (triplets sys)
          \<and> (PointIndex st ! j, PointIndex st ! i, - Weight i j) \<in> set (triplets sys)"
    if "(i, j) \<in> set edges" "0 \<le> PointIndex st ! i" "0 \<le> PointIndex st ! j"
  proof -
    from that have "set (edge_entries Weight (PointIndex st) (i, j)) \<subseteq> set (triplets sys)"
      unfolding t by auto
    then show ?thesis using that by (simp add: edge_entries_def)
  qed
  ultimately show ?thesis by blast
qed

theorem assembled_matrix_is_symmetric_witness:
  "AssembleSystem unit_weight (fan_edges (fan_surface (Some 1) 2)) masked_initialized 2 2
        = Inr fan_system
   \<and> setFromTriplets (triplets fan_system) 0 1 = - 1
   \<and> setFromTriplets (triplets fan_system) 1 0 = - 1
   \<and> (3, 4) \<in> set (fan_edges (fan_surface (Some 1) 2))
   \<and> PointIndex masked_initialized ! 3 = 0 \<and> PointIndex masked_initialized ! 4 = 1
   \<and> (0, 1, - unit_weight 3 4) \<in> set (triplets fan_system)
   \<and> (1, 0, - unit_weight 3 4) \<in> set (triplets fan_system)"
proof -
  have c: "AssembleSystem unit_weight (fan_edges (fan_surface (Some 1) 2)) masked_initialized 2 2
        = Inr fan_system"
    by code_simp
  have e: "(3, 4) \<in> set (fan_edges (fan_surface (Some 1) 2))"
    by (simp add: fan_edges_def)
  have d: "PointIndex masked_initialized ! 3 = 0" "PointIndex masked_initialized ! 4 = 1"
    by (simp_all add: masked_initialized_def)
  have v: "setFromTriplets (triplets fan_system) 0 1 = - 1"
    by (simp add: setFromTriplets_def fan_system_def sum_duplicates_def)
  from assembled_matrix_is_symmetric[OF c, of 0 1 3 4] e d v
  have "setFromTriplets (triplets fan_system) 1 0 = - 1"
    and "(0, 1, - unit_weight 3 4) \<in> set (triplets fan_system)"
    and "(1, 0, - unit_weight 3 4) \<in> set (triplets fan_system)"
    by simp_all
  with c e d v show ?thesis by simp
qed

section \<open>The diagonal of the matrix (C3)\<close>







section \<open>The right-hand side after the traversal\<close>







section \<open>Boundary values in the right-hand side (C5)\<close>




section \<open>What Solve writes\<close>



lemma only_rows_changed_refl: "only_rows_changed S st st"
  by (simp add: only_rows_changed_def)

lemma only_rows_changed_fields:
  assumes "only_rows_changed S st st'"
  shows "Values st' = Values st" and "FreePoints st' = FreePoints st" and "FixedPoints st' = FixedPoints st"
    and "PointIndex st' = PointIndex st" and "Surface st' = Surface st" and "polydatas st' = polydatas st"
    and "Mesh st' = Mesh st" and "Input st' = Input st" and "Mask st' = Mask st" and "Fixed st' = Fixed st"
    and "Output st' = Output st"
proof -
  from assms have e: "st' = st\<lparr>arrays := arrays st'\<rparr>" by (simp add: only_rows_changed_def)
  show "Values st' = Values st" by (subst e) simp
  show "FreePoints st' = FreePoints st" by (subst e) simp
  show "FixedPoints st' = FixedPoints st" by (subst e) simp
  show "PointIndex st' = PointIndex st" by (subst e) simp
  show "Surface st' = Surface st" by (subst e) simp
  show "polydatas st' = polydatas st" by (subst e) simp
  show "Mesh st' = Mesh st" by (subst e) simp
  show "Input st' = Input st" by (subst e) simp
  show "Mask st' = Mask st" by (subst e) simp
  show "Fixed st' = Fixed st" by (subst e) simp
  show "Output st' = Output st" by (subst e) simp
qed

lemma only_rows_changed_trans:
  assumes a: "only_rows_changed S st st'" and b: "only_rows_changed T st' st''"
    and sub: "T \<subseteq> S"
  shows "only_rows_changed S st st''"
proof -
  note f = only_rows_changed_fields[OF a]
  from a have e1: "st' = st\<lparr>arrays := arrays st'\<rparr>" by (simp add: only_rows_changed_def)
  from b have e2: "st'' = st'\<lparr>arrays := arrays st''\<rparr>" by (simp add: only_rows_changed_def)
  have "st'' = st\<lparr>arrays := arrays st''\<rparr>"
    by (subst e2, subst e1) simp
  moreover have "length (arrays st'') = length (arrays st)"
    using a b by (simp add: only_rows_changed_def)
  moreover have "\<forall>a. Values st \<noteq> Some a \<longrightarrow> arrays st'' ! a = arrays st ! a"
    using a b f(1) by (simp add: only_rows_changed_def)
  moreover have "\<forall>v. Values st = Some v \<longrightarrow>
        Name (arrays st'' ! v) = Name (arrays st ! v) \<and>
        NumberOfComponents (arrays st'' ! v) = NumberOfComponents (arrays st ! v) \<and>
        length (Tuples (arrays st'' ! v)) = length (Tuples (arrays st ! v)) \<and>
        (\<forall>i. i \<notin> S \<longrightarrow> Tuples (arrays st'' ! v) ! i = Tuples (arrays st ! v) ! i)"
  proof (intro allI impI)
    fix v assume v: "Values st = Some v"
    then have v': "Values st' = Some v" using f(1) by simp
    from a v have A: "Name (arrays st' ! v) = Name (arrays st ! v)"
      "NumberOfComponents (arrays st' ! v) = NumberOfComponents (arrays st ! v)"
      "length (Tuples (arrays st' ! v)) = length (Tuples (arrays st ! v))"
      "\<forall>i. i \<notin> S \<longrightarrow> Tuples (arrays st' ! v) ! i = Tuples (arrays st ! v) ! i"
      by (simp_all add: only_rows_changed_def)
    from b v' have B: "Name (arrays st'' ! v) = Name (arrays st' ! v)"
      "NumberOfComponents (arrays st'' ! v) = NumberOfComponents (arrays st' ! v)"
      "length (Tuples (arrays st'' ! v)) = length (Tuples (arrays st' ! v))"
      "\<forall>i. i \<notin> T \<longrightarrow> Tuples (arrays st'' ! v) ! i = Tuples (arrays st' ! v) ! i"
      by (simp_all add: only_rows_changed_def)
    from A B sub show "Name (arrays st'' ! v) = Name (arrays st ! v) \<and>
        NumberOfComponents (arrays st'' ! v) = NumberOfComponents (arrays st ! v) \<and>
        length (Tuples (arrays st'' ! v)) = length (Tuples (arrays st ! v)) \<and>
        (\<forall>i. i \<notin> S \<longrightarrow> Tuples (arrays st'' ! v) ! i = Tuples (arrays st ! v) ! i)"
      by auto
  qed
  ultimately show ?thesis unfolding only_rows_changed_def by blast
qed

lemma SetValue_only_row:
  assumes "SetValue st i l x = Inr st'"
  shows "only_rows_changed {i} st st'"
proof -
  from assms obtain v where v: "Values st = Some v"
    by (cases "Values st") (simp_all add: SetValue_def)
  let ?a = "arrays st ! v"
  have lt: "v < length (arrays st)"
  proof (rule ccontr)
    assume "\<not> v < length (arrays st)"
    with assms v show False by (simp add: SetValue_def get_array_def)
  qed
  from assms v lt
  have "then_do (SetComponent ?a i l x) (\<lambda>vals'. Inr (put_array v vals' st)) = Inr st'"
    by (simp add: SetValue_def get_array_def)
  then obtain a' where sc: "SetComponent ?a i l x = Inr a'" and p: "st' = put_array v a' st"
    by (auto simp: then_do_eq_Inr)
  from sc have a': "a' = ?a\<lparr>Tuples := (Tuples ?a)[i := (Tuples ?a ! i)[l := x]]\<rparr>"
    by (simp add: SetComponent_Inr)
  have arr: "arrays st' = (arrays st)[v := a']" by (simp add: p put_array_def)
  have rec: "st' = st\<lparr>arrays := arrays st'\<rparr>" by (simp add: p put_array_def)
  have other: "\<forall>a. Values st \<noteq> Some a \<longrightarrow> arrays st' ! a = arrays st ! a"
    using v by (simp add: arr)
  have at: "arrays st' ! v = a'" using lt by (simp add: arr)
  have same: "\<forall>w. Values st = Some w \<longrightarrow>
        Name (arrays st' ! w) = Name (arrays st ! w) \<and>
        NumberOfComponents (arrays st' ! w) = NumberOfComponents (arrays st ! w) \<and>
        length (Tuples (arrays st' ! w)) = length (Tuples (arrays st ! w)) \<and>
        (\<forall>k. k \<notin> {i} \<longrightarrow> Tuples (arrays st' ! w) ! k = Tuples (arrays st ! w) ! k)"
    using v by (simp add: at a')
  have len: "length (arrays st') = length (arrays st)" by (simp add: arr)
  from rec len other same show ?thesis unfolding only_rows_changed_def by blast
qed


lemma only_rows_changed_mono:
  "only_rows_changed T st st' \<Longrightarrow> T \<subseteq> S \<Longrightarrow> only_rows_changed S st st'"
  using only_rows_changed_trans[OF only_rows_changed_refl[of S st], of T st'] by simp

lemma WriteBack_only_free_rows:
  assumes "WriteBack x n m st0 = Inr st'"
  shows "only_rows_changed (set (FreePoints st0)) st0 st'"
proof -
  let ?S = "set (FreePoints st0)"
  let ?inner = "\<lambda>r i. (\<lambda>st l. then_do (coefficient x r l) (\<lambda>v. SetValue st i l v))"
  have inner: "only_rows_changed {i} s s'" if "for_each ls (?inner r i) s = Inr s'" for ls r i s s'
  proof (rule for_each_induct[OF that, where Q = "\<lambda>ys t. only_rows_changed {i} s t"], goal_cases)
    case 1
    show ?case by (rule only_rows_changed_refl)
  next
    case (2 ys l zs t t1)
    from 2(3) obtain v where "SetValue t i l v = Inr t1" by (auto simp: then_do_eq_Inr)
    from only_rows_changed_trans[OF 2(2) SetValue_only_row[OF this]] show ?case by simp
  qed
  from assms have run: "for_each [0..<n]
       (\<lambda>st r. then_do (FreePointId st r) (\<lambda>i. for_each [0..<m] (?inner r i) st)) st0 = Inr st'"
    by (simp add: WriteBack_def)
  show ?thesis
  proof (rule for_each_induct[OF run, where Q = "\<lambda>ys t. only_rows_changed ?S st0 t"], goal_cases)
    case 1
    show ?case by (rule only_rows_changed_refl)
  next
    case (2 ys r zs t t1)
    from 2(3) obtain i where id: "FreePointId t r = Inr i"
      and lp: "for_each [0..<m] (?inner r i) t = Inr t1"
      by (auto simp: then_do_eq_Inr)
    from id have "i \<in> set (FreePoints t)"
      by (auto simp: FreePointId_def split: if_splits)
    then have "{i} \<subseteq> ?S" using only_rows_changed_fields(2)[OF 2(2)] by simp
    from only_rows_changed_trans[OF 2(2) inner[OF lp] this] show ?case .
  qed
qed

lemma Solve_only_free_rows:
  assumes "Solve W E S st = Inr st'"
  shows "only_rows_changed (set (FreePoints st)) st st'"
proof -
  from assms obtain x n m where "WriteBack x n m st = Inr st'"
    unfolding Solve_def then_do_eq_Inr by blast
  then show ?thesis by (rule WriteBack_only_free_rows)
qed

lemma Finalize_fields:
  "arrays (Finalize st) = arrays st" "polydatas (Finalize st) = polydatas st"
  "Mesh (Finalize st) = Mesh st" "Input (Finalize st) = Input st" "Mask (Finalize st) = Mask st"
  "Surface (Finalize st) = Surface st" "Values (Finalize st) = Values st"
  "FixedPoints (Finalize st) = FixedPoints st" "FreePoints (Finalize st) = FreePoints st"
  by (simp_all add: Finalize_def)

lemma Run_Inr:
  assumes "Run junk W E S st0 = Inr st3"
  obtains st1 st2 where "Initialize junk st0 = Inr st1" and "Solve W E S st1 = Inr st2"
    and "st3 = Finalize st2"
  using assms unfolding Run_def then_do_eq_Inr by auto

section \<open>Fixed values (C10) and the caller's objects (C9)\<close>




text \<open>Claim C10. \<^verbatim>\<open>Solve\<close> writes the working value array at free points only: for every
  fixed point the whole tuple of the value array after \<^verbatim>\<open>Solve\<close> is the tuple it had after
  \<^verbatim>\<open>Initialize\<close>, which is the tuple of the caller's input array; \<^verbatim>\<open>Finalize\<close> puts this
  array, unchanged, into the output mapping.\<close>

theorem Solve_keeps_fixed_point_values:
  assumes init: "Initialize junk st0 = Inr st1"
    and solve: "Solve Weight EdgeTable solveWithGuess st1 = Inr st2"
    and fixed: "i \<in> set (FixedPoints st1)"
  shows "\<exists>inp v. Input st0 = Some inp \<and> Values st1 = Some v \<and> Values st2 = Some v
     \<and> Output (Finalize st2) = Some \<lparr>map_Domain = Surface st2, map_Values = Some v\<rparr>
     \<and> arrays (Finalize st2) = arrays st2
     \<and> Tuples (arrays st2 ! v) ! i = Tuples (arrays st1 ! v) ! i
     \<and> Tuples (arrays st1 ! v) ! i = Tuples (arrays st0 ! inp) ! i"
proof (rule Initialize_Inr[OF init], goal_cases)
  case (1 m inp f extra)
  note facts = 1
  let ?v = "length (arrays st0)"
  note frame = Solve_only_free_rows[OF solve]
  note same = only_rows_changed_fields[OF frame]
  have v1: "Values st1 = Some ?v" by (rule facts(12))
  have v2: "Values st2 = Some ?v" using same(1) v1 by simp
  have "Output st2 = None" using same(11) facts(13) by simp
  then have out: "Output (Finalize st2) = Some \<lparr>map_Domain = Surface st2, map_Values = Some ?v\<rparr>"
    by (simp add: Finalize_def v2)
  have notfree: "i \<notin> set (FreePoints st1)"
    using fixed unfolding facts(14) facts(15) by simp
  from frame v1 notfree have row: "Tuples (arrays st2 ! ?v) ! i = Tuples (arrays st1 ! ?v) ! i"
    by (simp add: only_rows_changed_def)
  have copy: "arrays st1 ! ?v = arrays st0 ! inp" by (simp add: facts(18))
  from facts(4) v1 v2 out row copy show ?case
    by (simp add: Finalize_fields)
qed

theorem Solve_keeps_fixed_point_values_witness:
  "Initialize [] masked_state = Inr masked_initialized
   \<and> Solve unit_weight fan_edges diagonal_solver masked_initialized = Inr masked_solved
   \<and> FixedPoints masked_initialized = [0, 1, 2]
   \<and> Input masked_state = Some 0 \<and> Values masked_initialized = Some 2
   \<and> Values masked_solved = Some 2
   \<and> Tuples (arrays masked_solved ! 2) ! 2 = [1, 1]
   \<and> Tuples (arrays masked_state ! 0) ! 2 = [1, 1]
   \<and> Tuples (arrays masked_solved ! 2) ! 3 = [1 / 3, 1 / 3]"
proof -
  have i: "Initialize [] masked_state = Inr masked_initialized" by code_simp
  have s: "Solve unit_weight fan_edges diagonal_solver masked_initialized = Inr masked_solved"
    by code_simp
  have f: "2 \<in> set (FixedPoints masked_initialized)" by (simp add: masked_initialized_def)
  have c: "Tuples (arrays masked_state ! 0) ! 2 = [1, 1]"
    "Input masked_state = Some 0" "Values masked_initialized = Some 2"
    by (simp_all add: masked_state_def masked_initialized_def fan_input_def)
  from Solve_keeps_fixed_point_values[OF i s f] c
  have "Tuples (arrays masked_solved ! 2) ! 2 = [1, 1]" and "Values masked_solved = Some 2"
    by auto
  with i s c show ?thesis
    by (simp add: masked_initialized_def masked_solved_def)
qed

text \<open>Claim C9. \<^verbatim>\<open>Run\<close> changes no object that existed before it: every mesh object
  and every data array of the store before the run is the same after it, in particular
  the caller's mesh and input array (and the mask), and the mapper still points at them.
  The working surface is another object than the caller's mesh, with the same points and
  polygons and without lines, vertices and cell data; the working value array is another
  object than the caller's input array.\<close>

theorem Run_leaves_caller_objects_unchanged:
  assumes run: "Run junk Weight EdgeTable solveWithGuess st0 = Inr st"
  shows "Mesh st = Mesh st0 \<and> Input st = Input st0 \<and> Mask st = Mask st0
     \<and> take (length (polydatas st0)) (polydatas st) = polydatas st0
     \<and> take (length (arrays st0)) (arrays st) = arrays st0
     \<and> (\<exists>mesh inp surface v.
          Mesh st0 = Some mesh \<and> mesh < length (polydatas st0)
          \<and> Input st0 = Some inp \<and> inp < length (arrays st0)
          \<and> polydatas st ! mesh = polydatas st0 ! mesh
          \<and> arrays st ! inp = arrays st0 ! inp
          \<and> Surface st = Some surface \<and> surface \<noteq> mesh
          \<and> Values st = Some v \<and> v \<noteq> inp
          \<and> Polys (polydatas st ! surface) = Polys (polydatas st0 ! mesh)
          \<and> NumberOfPoints (polydatas st ! surface) = NumberOfPoints (polydatas st0 ! mesh)
          \<and> Lines (polydatas st ! surface) = [] \<and> Verts (polydatas st ! surface) = []
          \<and> CellData (polydatas st ! surface) = [])"
proof -
  from run obtain st1 st2 where init: "Initialize junk st0 = Inr st1"
    and solve: "Solve Weight EdgeTable solveWithGuess st1 = Inr st2" and fin: "st = Finalize st2"
    by (rule Run_Inr)
  note frame = Solve_only_free_rows[OF solve]
  note same = only_rows_changed_fields[OF frame]
  show ?thesis
  proof (rule Initialize_Inr[OF init], goal_cases)
    case (1 m inp f extra)
    note facts = 1
    let ?v = "length (arrays st0)" and ?s = "length (polydatas st0)"
    have pd: "polydatas st = polydatas st1" by (simp add: fin Finalize_fields same)
    have len: "length (arrays st) = length (arrays st1)"
      using frame by (simp add: fin Finalize_fields only_rows_changed_def)
    have old: "arrays st ! a = arrays st0 ! a" if "a < ?v" for a
    proof -
      from that have "Values st1 \<noteq> Some a" by (simp add: facts(12))
      with frame have "arrays st2 ! a = arrays st1 ! a" by (simp add: only_rows_changed_def)
      then show ?thesis using that by (simp add: fin Finalize_fields facts(18) nth_append)
    qed
    have tk: "take ?v (arrays st) = arrays st0"
      by (rule nth_equalityI) (simp_all add: len facts(18) old)
    have tp: "take ?s (polydatas st) = polydatas st0"
      by (simp add: pd facts(17))
    have ptr: "Mesh st = Mesh st0 \<and> Input st = Input st0 \<and> Mask st = Mask st0"
      by (simp add: fin Finalize_fields same facts(7,8,9))
    have surf: "Surface st = Some ?s" and vals: "Values st = Some ?v"
      by (simp_all add: fin Finalize_fields same facts(10,12))
    have sobj: "polydatas st ! ?s = (polydatas st0 ! m)\<lparr>Lines := [], Verts := [], CellData := [],
                PointScalars := Mask st0, PointTCoords := Some ?v, PointArrays := [], Links := True\<rparr>"
      by (simp add: pd facts(17))
    have mobj: "polydatas st ! m = polydatas st0 ! m"
      using facts(2) by (simp add: pd facts(17) nth_append)
    have "Mesh st0 = Some m \<and> m < ?s \<and> Input st0 = Some inp \<and> inp < ?v
          \<and> polydatas st ! m = polydatas st0 ! m
          \<and> arrays st ! inp = arrays st0 ! inp
          \<and> Surface st = Some ?s \<and> ?s \<noteq> m
          \<and> Values st = Some ?v \<and> ?v \<noteq> inp
          \<and> Polys (polydatas st ! ?s) = Polys (polydatas st0 ! m)
          \<and> NumberOfPoints (polydatas st ! ?s) = NumberOfPoints (polydatas st0 ! m)
          \<and> Lines (polydatas st ! ?s) = [] \<and> Verts (polydatas st ! ?s) = []
          \<and> CellData (polydatas st ! ?s) = []"
      using facts(1,2,4,5) old[OF facts(5)] surf vals mobj by (simp add: sobj)
    with ptr tk tp show ?case by blast
  qed
qed

theorem Run_leaves_caller_objects_unchanged_witness:
  "Run [] unit_weight fan_edges diagonal_solver masked_state = Inr masked_after_run
   \<and> Mesh masked_after_run = Some 0 \<and> Input masked_after_run = Some 0
   \<and> polydatas masked_after_run ! 0 = fan_mesh
   \<and> arrays masked_after_run ! 0 = fan_input
   \<and> arrays masked_after_run ! 1 = fan_mask
   \<and> Surface masked_after_run = Some 1 \<and> Values masked_after_run = Some 2
   \<and> Lines fan_mesh = [[0, 1]] \<and> Lines (polydatas masked_after_run ! 1) = []"
proof -
  have r: "Run [] unit_weight fan_edges diagonal_solver masked_state = Inr masked_after_run"
    by code_simp
  from Run_leaves_caller_objects_unchanged[OF r]
  have "polydatas masked_after_run ! 0 = fan_mesh"
    and "arrays masked_after_run ! 0 = fan_input"
    and "Mesh masked_after_run = Some 0" and "Input masked_after_run = Some 0"
    by (simp_all add: masked_state_def)
  then show ?thesis using r
    by (simp add: masked_after_run_def masked_solved_def masked_initialized_def fan_mesh_def
        fan_surface_def)
qed

end
